theory Spec2Isabelle
  imports Main
begin

section \<open>Cards\<close>

text \<open>
  The service builds every card as the text \<^verbatim>\<open>`${rank}${suit}`\<close>, with the rank taken from
  \<^verbatim>\<open>RANKS\<close> and the suit from \<^verbatim>\<open>SUITS\<close> (createDeck). A card is represented here by these
  two components; \<^verbatim>\<open>getCardSuit\<close> and \<^verbatim>\<open>getCardValue\<close> recover exactly them from the text.
\<close>

datatype suit = Spades | Hearts | Diamonds | Clubs

datatype rankText = R2 | R3 | R4 | R5 | R6 | R7 | R8 | R9 | R10 | RJ | RQ | RK | RA

type_synonym card = "rankText \<times> suit"

definition SUITS :: "suit list" where
  "SUITS = [Spades, Hearts, Diamonds, Clubs]"

definition RANKS :: "rankText list" where
  "RANKS = [R2, R3, R4, R5, R6, R7, R8, R9, R10, RJ, RQ, RK, RA]"

text \<open>createDeck: for every suit, for every rank, push the card.\<close>

definition createDeck :: "card list" where
  "createDeck = concat (map (\<lambda>s. map (\<lambda>r. (r, s)) RANKS) SUITS)"

definition getCardSuit :: "card \<Rightarrow> suit" where
  "getCardSuit c = snd c"

fun getCardValue :: "card \<Rightarrow> int" where
  "getCardValue (RA, _) = 14"
| "getCardValue (RK, _) = 13"
| "getCardValue (RQ, _) = 12"
| "getCardValue (RJ, _) = 11"
| "getCardValue (R10, _) = 10"
| "getCardValue (R9, _) = 9"
| "getCardValue (R8, _) = 8"
| "getCardValue (R7, _) = 7"
| "getCardValue (R6, _) = 6"
| "getCardValue (R5, _) = 5"
| "getCardValue (R4, _) = 4"
| "getCardValue (R3, _) = 3"
| "getCardValue (R2, _) = 2"

section \<open>Hand evaluator\<close>

text \<open>The object \<^verbatim>\<open>{ rank, kickers }\<close> returned by the evaluators.\<close>

record HandRank =
  rank :: int
  kickers :: "int list"

text \<open>\<^verbatim>\<open>values.sort((a, b) => b - a)\<close>: descending order.\<close>

definition sortDesc :: "int list \<Rightarrow> int list" where
  "sortDesc vs = rev (sort vs)"

text \<open>
  \<^verbatim>\<open>Object.entries(counts)\<close>: the keys of \<^verbatim>\<open>counts\<close> are card values (integer keys), which
  JavaScript enumerates in ascending numeric order, each with its number of occurrences.
\<close>

definition countEntries :: "int list \<Rightarrow> (int \<times> nat) list" where
  "countEntries vs = map (\<lambda>v. (v, count_list vs v)) (sort (remdups vs))"

definition isFlush :: "suit list \<Rightarrow> bool" where
  "isFlush suits = (length suits = 5 \<and> length (remdups suits) = 1)"

text \<open>
  The loop \<^verbatim>\<open>for (i = 0; i < 4; i++)\<close> of isStraight over the five unique values: every
  value is one more than its successor.
\<close>

fun stepsOfOne :: "int list \<Rightarrow> bool" where
  "stepsOfOne (a # b # vs) = (a - b = 1 \<and> stepsOfOne (b # vs))"
| "stepsOfOne _ = True"

text \<open>isStraight returns the pair (isStraight, highCard).\<close>

definition isStraight :: "int list \<Rightarrow> bool \<times> int" where
  "isStraight vs =
     (let uniqueValues = sortDesc (remdups vs) in
      if length uniqueValues \<noteq> 5 then (False, 0)
      else if stepsOfOne uniqueValues
        then (True, uniqueValues ! 0)
      else if uniqueValues ! 0 = 14 \<and> uniqueValues ! 1 = 5 \<and> uniqueValues ! 2 = 4 \<and>
              uniqueValues ! 3 = 3 \<and> uniqueValues ! 4 = 2
        then (True, 5)
      else (False, 0))"

text \<open>\<^verbatim>\<open>values.find(p) || 0\<close>.\<close>

definition findOr0 :: "(int \<Rightarrow> bool) \<Rightarrow> int list \<Rightarrow> int" where
  "findOr0 P vs = (case find P vs of None \<Rightarrow> 0 | Some v \<Rightarrow> v)"

text \<open>
  The body of calculateHandRank after the best five cards have been chosen; it is applied
  to \<^verbatim>\<open>bestHand\<close>. \<^verbatim>\<open>values[0] === 14\<close> on an array too short compares \<^verbatim>\<open>undefined\<close> and is
  false, hence the length guards on the indexed reads.
\<close>

definition rankFive :: "card list \<Rightarrow> HandRank" where
  "rankFive bestHand =
     (let vals = sortDesc (map getCardValue bestHand);
          suits = map getCardSuit bestHand;
          counts = countEntries vals;
          pairs = filter (\<lambda>(_, c). c = 2) counts;
          threes = filter (\<lambda>(_, c). c = 3) counts;
          fours = filter (\<lambda>(_, c). c = 4) counts;
          flush = isFlush suits;
          straightInfo = isStraight vals;
          straight = fst straightInfo
      in
      if flush \<and> straight \<and> 1 < length vals \<and> vals ! 0 = 14 \<and> vals ! 1 = 13
        then \<lparr>rank = 10, kickers = [14]\<rparr>
      else if flush \<and> straight
        then \<lparr>rank = 9, kickers = [snd straightInfo]\<rparr>
      else if fours \<noteq> []
        then (let fourValue = fst (hd fours); kicker = findOr0 (\<lambda>v. v \<noteq> fourValue) vals
              in \<lparr>rank = 8, kickers = [fourValue, kicker]\<rparr>)
      else if threes \<noteq> [] \<and> pairs \<noteq> []
        then \<lparr>rank = 7, kickers = [fst (hd threes), fst (hd pairs)]\<rparr>
      else if flush
        then \<lparr>rank = 6, kickers = vals\<rparr>
      else if straight
        then \<lparr>rank = 5, kickers = [snd straightInfo]\<rparr>
      else if threes \<noteq> []
        then (let threeValue = fst (hd threes)
              in \<lparr>rank = 4, kickers = threeValue # take 2 (filter (\<lambda>v. v \<noteq> threeValue) vals)\<rparr>)
      else if 2 \<le> length pairs
        then (let pairValues = sortDesc (map fst pairs);
                  kicker = findOr0 (\<lambda>v. v \<notin> set pairValues) vals
              in \<lparr>rank = 3, kickers = pairValues @ [kicker]\<rparr>)
      else if length pairs = 1
        then (let pairValue = fst (hd pairs)
              in \<lparr>rank = 2, kickers = pairValue # take 3 (filter (\<lambda>v. v \<noteq> pairValue) vals)\<rparr>)
      else \<lparr>rank = 1, kickers = vals\<rparr>)"

text \<open>evaluateBasicHand: the same category tests, with the shortened kicker lists.\<close>

definition evaluateBasicHand :: "card list \<Rightarrow> HandRank" where
  "evaluateBasicHand hand =
     (let vals = sortDesc (map getCardValue hand);
          suits = map getCardSuit hand;
          counts = countEntries vals;
          pairs = filter (\<lambda>(_, c). c = 2) counts;
          threes = filter (\<lambda>(_, c). c = 3) counts;
          fours = filter (\<lambda>(_, c). c = 4) counts;
          flush = isFlush suits;
          straightInfo = isStraight vals;
          straight = fst straightInfo
      in
      if flush \<and> straight \<and> 1 < length vals \<and> vals ! 0 = 14 \<and> vals ! 1 = 13
        then \<lparr>rank = 10, kickers = [14]\<rparr>
      else if flush \<and> straight
        then \<lparr>rank = 9, kickers = [snd straightInfo]\<rparr>
      else if fours \<noteq> []
        then \<lparr>rank = 8, kickers = [fst (hd fours)]\<rparr>
      else if threes \<noteq> [] \<and> pairs \<noteq> []
        then \<lparr>rank = 7, kickers = [fst (hd threes), fst (hd pairs)]\<rparr>
      else if flush
        then \<lparr>rank = 6, kickers = vals\<rparr>
      else if straight
        then \<lparr>rank = 5, kickers = [snd straightInfo]\<rparr>
      else if threes \<noteq> []
        then \<lparr>rank = 4, kickers = [fst (hd threes)]\<rparr>
      else if 2 \<le> length pairs
        then \<lparr>rank = 3, kickers = sortDesc (map fst pairs)\<rparr>
      else if length pairs = 1
        then \<lparr>rank = 2, kickers = [fst (hd pairs)]\<rparr>
      else \<lparr>rank = 1, kickers = vals\<rparr>)"

text \<open>
  compareHands: the category first, then the kickers position by position up to the
  shorter length; the sign of the result orders the two hands.
\<close>

fun compareKickers :: "int list \<Rightarrow> int list \<Rightarrow> int" where
  "compareKickers (a # as) (b # bs) = (if a \<noteq> b then a - b else compareKickers as bs)"
| "compareKickers _ _ = 0"

definition compareHands :: "HandRank \<Rightarrow> HandRank \<Rightarrow> int" where
  "compareHands hand1 hand2 =
     (if rank hand1 \<noteq> rank hand2 then rank hand1 - rank hand2
      else compareKickers (kickers hand1) (kickers hand2))"

text \<open>
  The five nested index loops \<^verbatim>\<open>i < j < k < l < m\<close> of getBestFiveCardHand visit the
  five-element sub-sequences of the hand in lexicographic order of their indices;
  \<open>combos 5 hand\<close> lists them in that order.
\<close>

fun combos :: "nat \<Rightarrow> 'a list \<Rightarrow> 'a list list" where
  "combos 0 xs = [[]]"
| "combos (Suc k) [] = []"
| "combos (Suc k) (x # xs) = map ((#) x) (combos k xs) @ combos (Suc k) xs"

text \<open>One iteration of the innermost loop body: keep the combination when it is strictly better.\<close>

definition keepBetter :: "card list \<times> HandRank \<Rightarrow> card list \<Rightarrow> card list \<times> HandRank" where
  "keepBetter best combo =
     (let r = evaluateBasicHand combo in
      if 0 < compareHands r (snd best) then (combo, r) else best)"

definition getBestFiveCardHand :: "card list \<Rightarrow> card list" where
  "getBestFiveCardHand hand =
     (if length hand = 5 then hand
      else if 6 \<le> length hand then
        fst (foldl keepBetter (take 5 hand, evaluateBasicHand (take 5 hand)) (combos 5 hand))
      else take (min 5 (length hand)) hand)"

definition calculateHandRank :: "card list \<Rightarrow> HandRank" where
  "calculateHandRank hand = rankFive (getBestFiveCardHand hand)"

section \<open>Game state\<close>

datatype round = waiting | preflop | flop | turn | river | showdown

datatype actionKind = ActBet | ActCall | ActRaise | ActCheck | ActFold | ActAllIn

text \<open>
  The interfaces Player, PlayerAction and Game. The player's \<^verbatim>\<open>id\<close> is \<open>pid\<close> and the player's
  \<^verbatim>\<open>currentBet\<close> is \<open>playerBet\<close> (the game has a \<^verbatim>\<open>currentBet\<close> of its own). Amounts are whole
  numbers of tokens. Display names, timestamps and the clan, channel and game identifiers
  decorate messages or address the registry and are left out. An entry of \<open>burned\<close> is
  \<open>None\<close> where the code pushed the \<^verbatim>\<open>undefined\<close> popped from an empty deck.
\<close>

record Player =
  pid :: string
  chips :: int
  seat :: nat
  hole :: "card list"
  hasFolded :: bool
  playerBet :: int
  isAllIn :: bool

record PlayerAction =
  playerId :: string
  action :: actionKind
  amount :: "int option"
  totalBet :: "int option"
  actionRound :: round

record Game =
  players :: "Player list"
  deck :: "card list"
  burned :: "card option list"
  board :: "card list"
  pot :: int
  currentBet :: int
  round :: round
  dealerButton :: nat
  currentPlayerIndex :: nat
  isActive :: bool
  hasRaiseInRound :: bool
  betAmount :: int
  lastAggressorIndex :: "nat option"
  toActIds :: "string list"
  actionHistory :: "PlayerAction list"

text \<open>
  The part of the service's state a hand depends on: the game object, whether the map
  \<^verbatim>\<open>activeGames\<close> holds it under its key, the user repository as a ledger from user id to
  \<^verbatim>\<open>amount\<close>, and the outcome of the next \<^verbatim>\<open>createDeck\<close> followed by \<^verbatim>\<open>shuffleDeck\<close> (the
  shuffle draws from \<^verbatim>\<open>Math.random\<close>, so its result is an input here). Messages and timers
  are not part of it; each timer callback is an operation of its own below.
\<close>

record World =
  game :: Game
  registered :: bool
  ledger :: "string \<rightharpoonup> int"
  nextDeck :: "card list"

datatype failure =
    NoActiveGame | NotYourTurn | AlreadyFolded | InvalidRaiseAmount | RaiseNotAboveCurrentBet
  | InsufficientFunds | NothingToCall | CannotCheck | NoMoneyForAllIn

text \<open>
  The GameResult of an action: \<^verbatim>\<open>success: true\<close>, \<^verbatim>\<open>success: false\<close> with its message, or the
  TypeError thrown when \<^verbatim>\<open>game.players[game.currentPlayerIndex]\<close> is \<^verbatim>\<open>undefined\<close>.
\<close>

datatype result = Success | Failure failure | TypeError

section \<open>Ledger\<close>

text \<open>\<^verbatim>\<open>user?.amount || 0\<close>\<close>

definition userAmountOf :: "(string \<rightharpoonup> int) \<Rightarrow> string \<Rightarrow> int" where
  "userAmountOf l i = (case l i of None \<Rightarrow> 0 | Some a \<Rightarrow> a)"

text \<open>\<^verbatim>\<open>if (user) { user.amount -= x; save(user) }\<close>\<close>

definition debit :: "(string \<rightharpoonup> int) \<Rightarrow> string \<Rightarrow> int \<Rightarrow> (string \<rightharpoonup> int)" where
  "debit l i x = (case l i of None \<Rightarrow> l | Some a \<Rightarrow> l(i \<mapsto> a - x))"

definition addMoneyToUser :: "string \<Rightarrow> int \<Rightarrow> (string \<rightharpoonup> int) \<Rightarrow> (string \<rightharpoonup> int)" where
  "addMoneyToUser i x l = (case l i of None \<Rightarrow> l | Some a \<Rightarrow> l(i \<mapsto> a + x))"

text \<open>One iteration of the loop of deductPlayersFunds.\<close>

definition deductOne :: "int \<Rightarrow> (string \<rightharpoonup> int) \<Rightarrow> string \<Rightarrow> (string \<rightharpoonup> int)" where
  "deductOne betAmt l i =
     (case l i of
        None \<Rightarrow> l
      | Some a \<Rightarrow> if betAmt \<le> a then l(i \<mapsto> a - betAmt) else l)"

text \<open>deductPlayersFunds returns \<^verbatim>\<open>{ success }\<close> together with the ledger it leaves.\<close>

definition deductPlayersFunds ::
  "string list \<Rightarrow> int \<Rightarrow> (string \<rightharpoonup> int) \<Rightarrow> bool \<times> (string \<rightharpoonup> int)" where
  "deductPlayersFunds playerIds betAmt l = (True, foldl (deductOne betAmt) l playerIds)"

section \<open>Turn order\<close>

definition getActiveGame :: "World \<Rightarrow> Game option" where
  "getActiveGame w = (if registered w \<and> isActive (game w) then Some (game w) else None)"

definition notFolded :: "Player \<Rightarrow> bool" where
  "notFolded p = (\<not> hasFolded p)"

definition setToActForNewRound :: "Game \<Rightarrow> Game" where
  "setToActForNewRound g = g\<lparr>toActIds := map pid (filter notFolded (players g))\<rparr>"

definition setToActAfterRaise :: "Game \<Rightarrow> string \<Rightarrow> Game" where
  "setToActAfterRaise g raiserId =
     g\<lparr>toActIds := map pid (filter (\<lambda>p. \<not> hasFolded p \<and> pid p \<noteq> raiserId) (players g))\<rparr>"

definition removeFromToAct :: "Game \<Rightarrow> string \<Rightarrow> Game" where
  "removeFromToAct g i = g\<lparr>toActIds := filter (\<lambda>j. j \<noteq> i) (toActIds g)\<rparr>"

text \<open>The seats visited by \<^verbatim>\<open>for (i = 1; i <= n; i++) idx = (startIndex + i) % n\<close>.\<close>

definition seatsAfter :: "nat \<Rightarrow> nat \<Rightarrow> nat list" where
  "seatsAfter n startIndex = map (\<lambda>i. (startIndex + i) mod n) [1..<Suc n]"

definition findNextActivePlayer :: "Game \<Rightarrow> nat \<Rightarrow> nat" where
  "findNextActivePlayer g startIndex =
     (case find (\<lambda>idx. \<not> hasFolded (players g ! idx)) (seatsAfter (length (players g)) startIndex) of
        Some idx \<Rightarrow> idx
      | None \<Rightarrow> startIndex)"

definition findNextActorIndex :: "Game \<Rightarrow> nat \<Rightarrow> nat" where
  "findNextActorIndex g startIndex =
     (let seats = seatsAfter (length (players g)) startIndex in
      case find (\<lambda>idx. \<not> hasFolded (players g ! idx) \<and> pid (players g ! idx) \<in> set (toActIds g)) seats of
        Some idx \<Rightarrow> idx
      | None \<Rightarrow>
          (case find (\<lambda>idx. \<not> hasFolded (players g ! idx)) seats of
             Some idx \<Rightarrow> idx
           | None \<Rightarrow> startIndex))"

definition addActionToHistory ::
  "Game \<Rightarrow> string \<Rightarrow> actionKind \<Rightarrow> int option \<Rightarrow> int option \<Rightarrow> Game" where
  "addActionToHistory g i kind amt tot =
     (case find (\<lambda>p. pid p = i) (players g) of
        None \<Rightarrow> g
      | Some _ \<Rightarrow>
          g\<lparr>actionHistory := actionHistory g @
              [\<lparr>playerId = i, action = kind, amount = amt, totalBet = tot,
                actionRound = round g\<rparr>]\<rparr>)"

section \<open>Dealing\<close>

text \<open>\<^verbatim>\<open>deck.pop()\<close> takes the last element of the array, \<^verbatim>\<open>undefined\<close> when it is empty.\<close>

definition popDeck :: "card list \<Rightarrow> card option \<times> card list" where
  "popDeck d = (if d = [] then (None, []) else (Some (last d), butlast d))"

text \<open>\<^verbatim>\<open>game.burned.push(game.deck.pop()!)\<close>\<close>

definition burnCard :: "Game \<Rightarrow> Game" where
  "burnCard g = (case popDeck (deck g) of (c, d) \<Rightarrow> g\<lparr>deck := d, burned := burned g @ [c]\<rparr>)"

text \<open>\<^verbatim>\<open>const card = game.deck.pop(); if (card) game.board.push(card)\<close>\<close>

definition dealBoardCard :: "Game \<Rightarrow> Game" where
  "dealBoardCard g =
     (case popDeck (deck g) of
        (None, d) \<Rightarrow> g\<lparr>deck := d\<rparr>
      | (Some c, d) \<Rightarrow> g\<lparr>deck := d, board := board g @ [c]\<rparr>)"

definition revealFlop :: "Game \<Rightarrow> Game" where
  "revealFlop g =
     (if length (board g) = 0 \<and> round g \<noteq> showdown then
        (if 4 \<le> length (deck g) then dealBoardCard (dealBoardCard (dealBoardCard (burnCard g)))
         else g)\<lparr>round := flop\<rparr>
      else g)"

definition revealTurn :: "Game \<Rightarrow> Game" where
  "revealTurn g =
     (if length (board g) = 3 \<and> round g \<noteq> showdown then
        (if 2 \<le> length (deck g) then dealBoardCard (burnCard g) else g)\<lparr>round := turn\<rparr>
      else g)"

definition revealRiver :: "Game \<Rightarrow> Game" where
  "revealRiver g =
     (if length (board g) = 4 \<and> round g \<noteq> showdown then
        (if 2 \<le> length (deck g) then dealBoardCard (burnCard g) else g)\<lparr>round := river\<rparr>
      else g)"

text \<open>revealRemainingBoard: the four consecutive \<^verbatim>\<open>if\<close> statements, in order.\<close>

definition revealRemainingBoard :: "Game \<Rightarrow> Game" where
  "revealRemainingBoard g =
     (let g3 = revealRiver (revealTurn (revealFlop g)) in
      if length (board g3) = 5 then g3\<lparr>round := river\<rparr> else g3)"

section \<open>Settlement\<close>

definition resetPlayer :: "Player \<Rightarrow> Player" where
  "resetPlayer p = p\<lparr>hole := [], hasFolded := False, playerBet := 0, isAllIn := False, chips := 0\<rparr>"

definition resetForNextHand :: "World \<Rightarrow> World" where
  "resetForNextHand w =
     w\<lparr>game := (game w)\<lparr>board := [], burned := [], pot := 0, currentBet := 0, round := waiting,
                          players := map resetPlayer (players (game w)), deck := nextDeck w,
                          isActive := False\<rparr>,
       registered := False\<rparr>"

text \<open>
  awardPotAndRotate: the loop credits the first player of the table whose id is among the
  winners with the whole pot and stops.
\<close>

definition awardPotAndRotate :: "World \<Rightarrow> string list \<Rightarrow> World" where
  "awardPotAndRotate w winnerIds =
     (if winnerIds = [] then resetForNextHand w
      else if \<not> registered w then w
      else
        (let totalWinnings = pot (game w);
             l = (case find (\<lambda>p. pid p \<in> set winnerIds) (players (game w)) of
                    None \<Rightarrow> ledger w
                  | Some p \<Rightarrow> addMoneyToUser (pid p) totalWinnings (ledger w))
         in resetForNextHand (w\<lparr>ledger := l\<rparr>)))"

text \<open>
  The comparator given to \<^verbatim>\<open>sort\<close> at showdown: the higher category first, then the higher
  kicker at the first position where the two differ, else 0.
\<close>

definition showdownCompare :: "Player \<times> HandRank \<Rightarrow> Player \<times> HandRank \<Rightarrow> int" where
  "showdownCompare a b =
     (if rank (snd a) \<noteq> rank (snd b) then rank (snd b) - rank (snd a)
      else compareKickers (kickers (snd b)) (kickers (snd a)))"

text \<open>
  \<^verbatim>\<open>Array.prototype.sort\<close> is stable. It is modelled as the stable insertion sort: an element
  goes behind every element that the comparator does not place after it.
\<close>

fun insertBy :: "('a \<Rightarrow> 'a \<Rightarrow> int) \<Rightarrow> 'a \<Rightarrow> 'a list \<Rightarrow> 'a list" where
  "insertBy cmp x [] = [x]"
| "insertBy cmp x (y # ys) = (if cmp y x \<le> 0 then y # insertBy cmp x ys else x # y # ys)"

definition sortBy :: "('a \<Rightarrow> 'a \<Rightarrow> int) \<Rightarrow> 'a list \<Rightarrow> 'a list" where
  "sortBy cmp xs = foldl (\<lambda>acc x. insertBy cmp x acc) [] xs"

definition rankContenders :: "Game \<Rightarrow> Player list \<Rightarrow> (Player \<times> HandRank) list" where
  "rankContenders g contenders =
     sortBy showdownCompare (map (\<lambda>p. (p, calculateHandRank (hole p @ board g))) contenders)"

definition handleShowdown :: "World \<Rightarrow> World" where
  "handleShowdown w =
     (let contenders = filter notFolded (players (game w)) in
      if contenders = [] then resetForNextHand w
      else
        (let ranked = rankContenders (game w) contenders;
             winner = fst (hd ranked)
         in awardPotAndRotate w [pid winner]))"

definition handleAllInShowdown :: "World \<Rightarrow> World" where
  "handleAllInShowdown w =
     (let w1 = w\<lparr>game := revealRemainingBoard (game w)\<rparr>;
          activePlayers = filter notFolded (players (game w1)) in
      if activePlayers = [] then resetForNextHand w1
      else if length activePlayers = 1 then awardPotAndRotate w1 [pid (hd activePlayers)]
      else
        (let ranked = rankContenders (game w1) activePlayers;
             winner = fst (hd ranked)
         in awardPotAndRotate w1 [pid winner]))"

section \<open>Round advancement\<close>

text \<open>The tail of advanceToNextRound after the \<^verbatim>\<open>switch\<close>: first to act is the first non-folded seat after the dealer button.\<close>

definition firstToAct :: "Game \<Rightarrow> Game" where
  "firstToAct g = g\<lparr>currentPlayerIndex := findNextActivePlayer g (dealerButton g)\<rparr>"

definition advanceToNextRound :: "World \<Rightarrow> World" where
  "advanceToNextRound w =
     (let g = (game w)\<lparr>hasRaiseInRound := False, lastAggressorIndex := None, actionHistory := []\<rparr> in
      case round g of
        preflop \<Rightarrow>
          w\<lparr>game := firstToAct (setToActForNewRound
                 (dealBoardCard (dealBoardCard (dealBoardCard (burnCard (g\<lparr>round := flop\<rparr>))))))\<rparr>
      | flop \<Rightarrow>
          w\<lparr>game := firstToAct (setToActForNewRound (dealBoardCard (burnCard (g\<lparr>round := turn\<rparr>))))\<rparr>
      | turn \<Rightarrow>
          w\<lparr>game := firstToAct (setToActForNewRound (dealBoardCard (burnCard (g\<lparr>round := river\<rparr>))))\<rparr>
      | river \<Rightarrow> w\<lparr>game := firstToAct g\<rparr>
      | showdown \<Rightarrow> handleShowdown (w\<lparr>game := g\<rparr>)
      | waiting \<Rightarrow> w\<lparr>game := g\<rparr>)"

text \<open>The round-closure test shared by moveToNextPlayer and checkAndContinueGame.\<close>

definition allMatched :: "Game \<Rightarrow> bool" where
  "allMatched g = list_all (\<lambda>p. playerBet p = currentBet g) (filter notFolded (players g))"

definition closeRound :: "World \<Rightarrow> World" where
  "closeRound w =
     (if filter isAllIn (filter notFolded (players (game w))) \<noteq> [] then handleAllInShowdown w
      else if round (game w) = river then handleShowdown (w\<lparr>game := (game w)\<lparr>round := showdown\<rparr>\<rparr>)
      else advanceToNextRound w)"

definition passTurn :: "World \<Rightarrow> World" where
  "passTurn w =
     w\<lparr>game := (game w)\<lparr>currentPlayerIndex := findNextActorIndex (game w) (currentPlayerIndex (game w))\<rparr>\<rparr>"

definition moveToNextPlayer :: "World \<Rightarrow> World" where
  "moveToNextPlayer w =
     (let activePlayers = filter notFolded (players (game w)) in
      if length activePlayers = 1 then awardPotAndRotate w [pid (hd activePlayers)]
      else if toActIds (game w) = [] \<and> allMatched (game w) then closeRound w
      else passTurn w)"

definition checkAndContinueGame :: "World \<Rightarrow> World" where
  "checkAndContinueGame w =
     (if \<not> registered w then w
      else
        (let activePlayers = filter notFolded (players (game w)) in
         if length activePlayers = 1 then awardPotAndRotate w [pid (hd activePlayers)]
         else if toActIds (game w) = [] \<and> allMatched (game w) then closeRound w
         else if currentPlayerIndex (game w) < length (players (game w)) then passTurn w
         else w))"

section \<open>Actions\<close>

text \<open>
  Every action begins with the same tests in the same order: the game must be active, the
  player at \<^verbatim>\<open>currentPlayerIndex\<close> must carry the acting id, and must not have folded. The
  messages deleted in between are not part of the state.
\<close>

definition actingPlayer :: "string \<Rightarrow> World \<Rightarrow> result + (Game \<times> Player)" where
  "actingPlayer i w =
     (case getActiveGame w of
        None \<Rightarrow> Inl (Failure NoActiveGame)
      | Some g \<Rightarrow>
          if length (players g) \<le> currentPlayerIndex g then Inl TypeError
          else
            (let currentPlayer = players g ! currentPlayerIndex g in
             if pid currentPlayer \<noteq> i then Inl (Failure NotYourTurn)
             else if hasFolded currentPlayer then Inl (Failure AlreadyFolded)
             else Inr (g, currentPlayer)))"

definition makeRaise :: "string \<Rightarrow> int \<Rightarrow> World \<Rightarrow> result \<times> World" where
  "makeRaise i toTotal w =
     (case actingPlayer i w of
        Inl r \<Rightarrow> (r, w)
      | Inr (g, currentPlayer) \<Rightarrow>
          (let amountToAdd = toTotal - playerBet currentPlayer in
           if amountToAdd \<le> 0 \<or> chips currentPlayer < amountToAdd then (Failure InvalidRaiseAmount, w)
           else if toTotal \<le> currentBet g then (Failure RaiseNotAboveCurrentBet, w)
           else if userAmountOf (ledger w) i < amountToAdd then (Failure InsufficientFunds, w)
           else
             (let p1 = currentPlayer\<lparr>playerBet := toTotal\<rparr>;
                  p2 = (if chips p1 = 0 then p1\<lparr>isAllIn := True\<rparr> else p1);
                  g1 = g\<lparr>players := (players g)[currentPlayerIndex g := p2],
                         pot := pot g + amountToAdd, currentBet := toTotal,
                         hasRaiseInRound := True,
                         lastAggressorIndex := Some (currentPlayerIndex g)\<rparr>;
                  g2 = addActionToHistory (setToActAfterRaise g1 i) i ActRaise
                         (Some amountToAdd) (Some toTotal)
              in (Success, moveToNextPlayer (w\<lparr>game := g2, ledger := debit (ledger w) i amountToAdd\<rparr>)))))"

definition makeCall :: "string \<Rightarrow> World \<Rightarrow> result \<times> World" where
  "makeCall i w =
     (case actingPlayer i w of
        Inl r \<Rightarrow> (r, w)
      | Inr (g, currentPlayer) \<Rightarrow>
          (let amountToCall = currentBet g - playerBet currentPlayer in
           if amountToCall \<le> 0 then (Failure NothingToCall, w)
           else if userAmountOf (ledger w) i < amountToCall then (Failure InsufficientFunds, w)
           else
             (let p1 = currentPlayer\<lparr>playerBet := playerBet currentPlayer + amountToCall\<rparr>;
                  g1 = g\<lparr>players := (players g)[currentPlayerIndex g := p1],
                         pot := pot g + amountToCall\<rparr>;
                  g2 = addActionToHistory (removeFromToAct g1 i) i ActCall
                         (Some amountToCall) (Some (playerBet p1))
              in (Success, moveToNextPlayer (w\<lparr>game := g2, ledger := debit (ledger w) i amountToCall\<rparr>)))))"

definition makeCheck :: "string \<Rightarrow> World \<Rightarrow> result \<times> World" where
  "makeCheck i w =
     (case actingPlayer i w of
        Inl r \<Rightarrow> (r, w)
      | Inr (g, currentPlayer) \<Rightarrow>
          if playerBet currentPlayer < currentBet g then (Failure CannotCheck, w)
          else
            (let g1 = addActionToHistory (removeFromToAct g i) i ActCheck None None
             in (Success, moveToNextPlayer (w\<lparr>game := g1\<rparr>))))"

definition makeFold :: "string \<Rightarrow> World \<Rightarrow> result \<times> World" where
  "makeFold i w =
     (case actingPlayer i w of
        Inl r \<Rightarrow> (r, w)
      | Inr (g, currentPlayer) \<Rightarrow>
          (let g1 = g\<lparr>players := (players g)[currentPlayerIndex g := currentPlayer\<lparr>hasFolded := True\<rparr>]\<rparr>;
               g2 = addActionToHistory (removeFromToAct g1 i) i ActFold None None
           in (Success, moveToNextPlayer (w\<lparr>game := g2\<rparr>))))"

text \<open>
  The body shared by makeRaiseByBetAmount, makeRaiseByMultiplier and makeRaiseByPot once
  \<^verbatim>\<open>raiseAmount\<close> is computed.
\<close>

definition raiseBy :: "int \<Rightarrow> string \<Rightarrow> Game \<Rightarrow> Player \<Rightarrow> World \<Rightarrow> result \<times> World" where
  "raiseBy raiseAmount i g currentPlayer w =
     (let newTotalBet = currentBet g + raiseAmount;
          amountToAdd = newTotalBet - playerBet currentPlayer in
      if amountToAdd \<le> 0 then (Failure InvalidRaiseAmount, w)
      else if userAmountOf (ledger w) i < amountToAdd then (Failure InsufficientFunds, w)
      else
        (let g1 = g\<lparr>players := (players g)[currentPlayerIndex g := currentPlayer\<lparr>playerBet := newTotalBet\<rparr>],
                    pot := pot g + amountToAdd, currentBet := newTotalBet,
                    hasRaiseInRound := True,
                    lastAggressorIndex := Some (currentPlayerIndex g)\<rparr>;
             g2 = addActionToHistory (setToActAfterRaise g1 i) i ActRaise
                    (Some raiseAmount) (Some newTotalBet)
         in (Success, moveToNextPlayer (w\<lparr>game := g2, ledger := debit (ledger w) i amountToAdd\<rparr>))))"

definition makeRaiseByBetAmount :: "string \<Rightarrow> World \<Rightarrow> result \<times> World" where
  "makeRaiseByBetAmount i w =
     (case actingPlayer i w of
        Inl r \<Rightarrow> (r, w)
      | Inr (g, currentPlayer) \<Rightarrow> raiseBy (betAmount g) i g currentPlayer w)"

definition makeRaiseByMultiplier :: "string \<Rightarrow> int \<Rightarrow> World \<Rightarrow> result \<times> World" where
  "makeRaiseByMultiplier i multiplier w =
     (case actingPlayer i w of
        Inl r \<Rightarrow> (r, w)
      | Inr (g, currentPlayer) \<Rightarrow> raiseBy (max 0 (betAmount g * multiplier)) i g currentPlayer w)"

definition makeRaiseByPot :: "string \<Rightarrow> World \<Rightarrow> result \<times> World" where
  "makeRaiseByPot i w =
     (case actingPlayer i w of
        Inl r \<Rightarrow> (r, w)
      | Inr (g, currentPlayer) \<Rightarrow> raiseBy (max (betAmount g) (pot g)) i g currentPlayer w)"

text \<open>
  makeAllIn. handleAllInInsufficientFunds only sends the call-or-fold prompt and arms the
  turn timer, so it leaves no trace here. The action is added to the history after
  moveToNextPlayer has run.
\<close>

definition makeAllIn :: "string \<Rightarrow> World \<Rightarrow> result \<times> World" where
  "makeAllIn i w =
     (case actingPlayer i w of
        Inl r \<Rightarrow> (r, w)
      | Inr (g, currentPlayer) \<Rightarrow>
          (let userAmount = userAmountOf (ledger w) i;
               amountToCall = max 0 (currentBet g - playerBet currentPlayer) in
           if userAmount \<le> 0 then (Failure NoMoneyForAllIn, w)
           else if 0 < amountToCall \<and> userAmount < amountToCall then (Failure InsufficientFunds, w)
           else
             (let allInAmount = userAmount;
                  newPlayerBet = playerBet currentPlayer + allInAmount;
                  l = (case ledger w i of None \<Rightarrow> ledger w | Some _ \<Rightarrow> (ledger w)(i \<mapsto> 0));
                  g1 = g\<lparr>players := (players g)[currentPlayerIndex g :=
                                currentPlayer\<lparr>chips := 0, playerBet := newPlayerBet, isAllIn := True\<rparr>],
                         pot := pot g + allInAmount\<rparr>;
                  g2 = (if currentBet g < newPlayerBet
                        then setToActAfterRaise
                               (g1\<lparr>currentBet := newPlayerBet, hasRaiseInRound := True,
                                   lastAggressorIndex := Some (currentPlayerIndex g)\<rparr>) i
                        else (setToActAfterRaise g1 i)\<lparr>lastAggressorIndex := Some (currentPlayerIndex g)\<rparr>);
                  w1 = moveToNextPlayer (w\<lparr>game := g2, ledger := l\<rparr>)
              in (Success,
                  w1\<lparr>game := addActionToHistory (game w1) i ActAllIn (Some allInAmount) (Some newPlayerBet)\<rparr>))))"

section \<open>Timer callbacks\<close>

definition handleTurnTimeout :: "string \<Rightarrow> World \<Rightarrow> World" where
  "handleTurnTimeout i w =
     (let g = game w in
      if currentPlayerIndex g < length (players g) \<and> pid (players g ! currentPlayerIndex g) = i \<and>
         \<not> hasFolded (players g ! currentPlayerIndex g)
      then snd (makeFold i w) else w)"

text \<open>\<^verbatim>\<open>player.hasFolded = true\<close> on the player that \<^verbatim>\<open>find\<close> returned: the first one with that id.\<close>

fun foldFirst :: "string \<Rightarrow> Player list \<Rightarrow> Player list" where
  "foldFirst i [] = []"
| "foldFirst i (p # ps) = (if pid p = i then p\<lparr>hasFolded := True\<rparr> # ps else p # foldFirst i ps)"

definition handleInsufficientFundsTimeout :: "string \<Rightarrow> World \<Rightarrow> World" where
  "handleInsufficientFundsTimeout i w =
     (if \<not> registered w then w
      else
        (case find (\<lambda>p. pid p = i) (players (game w)) of
           None \<Rightarrow> w
         | Some player \<Rightarrow>
             if hasFolded player then w
             else
               (let callAmount = currentBet (game w) - playerBet player in
                if userAmountOf (ledger w) i < callAmount then
                  checkAndContinueGame
                    (w\<lparr>game := removeFromToAct ((game w)\<lparr>players := foldFirst i (players (game w))\<rparr>) i\<rparr>)
                else w)))"

section \<open>Starting a hand\<close>

definition newPlayer :: "int \<Rightarrow> nat \<times> string \<Rightarrow> Player" where
  "newPlayer c ix =
     \<lparr>pid = snd ix, chips = c, seat = fst ix, hole = [], hasFolded = False, playerBet = 0,
      isAllIn = False\<rparr>"

definition newGame :: "int \<Rightarrow> string list \<Rightarrow> int \<Rightarrow> card list \<Rightarrow> Game" where
  "newGame c playerIds betAmt d =
     \<lparr>players = map (newPlayer c) (enumerate 0 playerIds), deck = d, burned = [], board = [],
      pot = int (length playerIds) * betAmt, currentBet = 0, round = waiting, dealerButton = 0,
      currentPlayerIndex = 0, isActive = True, hasRaiseInRound = False, betAmount = betAmt,
      lastAggressorIndex = None, toActIds = [], actionHistory = []\<rparr>"

text \<open>
  startGame: players with \<^verbatim>\<open>chips: 0\<close>, the pot set to \<^verbatim>\<open>playerIds.length * betAmount\<close>, then
  deductPlayersFunds; it throws (\<open>None\<close>) when the deduction reports failure. \<open>d\<close> is the
  shuffled deck.
\<close>

definition startGame :: "string list \<Rightarrow> int \<Rightarrow> card list \<Rightarrow> World \<Rightarrow> World option" where
  "startGame playerIds betAmt d w =
     (let g = newGame 0 playerIds betAmt d;
          deductResult = deductPlayersFunds playerIds betAmt (ledger w) in
      if \<not> fst deductResult then None
      else Some (w\<lparr>game := g, registered := True, ledger := snd deductResult\<rparr>))"

definition dealHoleCard :: "Game \<Rightarrow> nat \<Rightarrow> Game" where
  "dealHoleCard g idx =
     (case popDeck (deck g) of
        (None, d) \<Rightarrow> g\<lparr>deck := d\<rparr>
      | (Some c, d) \<Rightarrow>
          g\<lparr>deck := d,
            players := (players g)[idx := (players g ! idx)\<lparr>hole := hole (players g ! idx) @ [c]\<rparr>]\<rparr>)"

definition dealRound :: "Game \<Rightarrow> Game" where
  "dealRound g = foldl dealHoleCard g [0..<length (players g)]"

text \<open>postBlinds: no blinds are posted; every bet is 0 and the seat after the button acts first.\<close>

definition postBlinds :: "Game \<Rightarrow> Game" where
  "postBlinds g =
     (let g1 = g\<lparr>players := map (\<lambda>p. p\<lparr>playerBet := 0\<rparr>) (players g), currentBet := 0,
                 currentPlayerIndex := (dealerButton g + 1) mod length (players g)\<rparr>
      in (setToActForNewRound g1)\<lparr>lastAggressorIndex := None\<rparr>)"

definition dealCardsAndStartGame :: "World \<Rightarrow> World" where
  "dealCardsAndStartGame w =
     (if \<not> registered w then w
      else w\<lparr>game := postBlinds ((dealRound (dealRound (game w)))\<lparr>round := preflop\<rparr>)\<rparr>)"

text \<open>createNewGame (a continued table): players hold \<^verbatim>\<open>chips: betAmount\<close>, nothing is deducted here, and the cards are dealt at once.\<close>

definition createNewGame :: "string list \<Rightarrow> int \<Rightarrow> card list \<Rightarrow> World \<Rightarrow> World" where
  "createNewGame playerIds betAmt d w =
     dealCardsAndStartGame (w\<lparr>game := newGame betAmt playerIds betAmt d, registered := True\<rparr>)"

section \<open>Reachable states\<close>

text \<open>
  The states a hand can reach: a game started by startGame or createNewGame with at least two
  players and no id twice (both callers refuse fewer than two and collect each id once), then
  any sequence of the deal, the actions and the timer callbacks, with any acting id and
  amount, and any change of the ledger made outside the hand.
\<close>

inductive reachable :: "World \<Rightarrow> bool" where
  reach_start:
    "2 \<le> length playerIds \<Longrightarrow> distinct playerIds \<Longrightarrow>
     startGame playerIds betAmt d w0 = Some w \<Longrightarrow> reachable w"
| reach_continue:
    "2 \<le> length playerIds \<Longrightarrow> distinct playerIds \<Longrightarrow>
     reachable (createNewGame playerIds betAmt d w0)"
| reach_deal: "reachable w \<Longrightarrow> reachable (dealCardsAndStartGame w)"
| reach_raise: "reachable w \<Longrightarrow> reachable (snd (makeRaise i toTotal w))"
| reach_call: "reachable w \<Longrightarrow> reachable (snd (makeCall i w))"
| reach_check: "reachable w \<Longrightarrow> reachable (snd (makeCheck i w))"
| reach_fold: "reachable w \<Longrightarrow> reachable (snd (makeFold i w))"
| reach_raise_bet: "reachable w \<Longrightarrow> reachable (snd (makeRaiseByBetAmount i w))"
| reach_raise_mult: "reachable w \<Longrightarrow> reachable (snd (makeRaiseByMultiplier i m w))"
| reach_raise_pot: "reachable w \<Longrightarrow> reachable (snd (makeRaiseByPot i w))"
| reach_allin: "reachable w \<Longrightarrow> reachable (snd (makeAllIn i w))"
| reach_turn_timeout: "reachable w \<Longrightarrow> reachable (handleTurnTimeout i w)"
| reach_funds_timeout: "reachable w \<Longrightarrow> reachable (handleInsufficientFundsTimeout i w)"
| reach_ledger: "reachable w \<Longrightarrow> reachable (w\<lparr>ledger := l\<rparr>)"

section \<open>Well-formed tables\<close>

text \<open>
  Predicates used to state and prove the invariants of reachable states. \<open>seatsOf\<close> keeps of
  each seat the id and the folded flag. \<open>tableOk\<close>: no id sits twice, a registered game has
  at least two players who have not folded, and every id still to act belongs to a player
  who has not folded. \<open>stepOk\<close> relates a state to its successor under the round machinery:
  either the hand was settled (the game left the registry, every player was reset, the
  obligations were left as they were), or the seats are unchanged and the obligations are
  unchanged or were reset to the players who have not folded.
\<close>

definition seatsOf :: "Game \<Rightarrow> (string \<times> bool) list" where
  "seatsOf g = map (\<lambda>p. (pid p, hasFolded p)) (players g)"

definition tableOk :: "World \<Rightarrow> bool" where
  "tableOk w =
     (distinct (map pid (players (game w))) \<and>
      (\<not> registered w \<or> 2 \<le> length (filter notFolded (players (game w)))) \<and>
      set (toActIds (game w)) \<subseteq> pid ` set (filter notFolded (players (game w))))"

definition settles :: "World \<Rightarrow> World \<Rightarrow> bool" where
  "settles w w' =
     (\<not> registered w' \<and> toActIds (game w') = toActIds (game w) \<and>
      seatsOf (game w') = map (\<lambda>x. (fst x, False)) (seatsOf (game w)))"

definition continues :: "World \<Rightarrow> World \<Rightarrow> bool" where
  "continues w w' =
     (registered w' = registered w \<and> seatsOf (game w') = seatsOf (game w) \<and>
      (toActIds (game w') = toActIds (game w) \<or>
       toActIds (game w') = map pid (filter notFolded (players (game w)))))"

definition stepOk :: "World \<Rightarrow> World \<Rightarrow> bool" where
  "stepOk w w' = (settles w w' \<or> continues w w')"

section \<open>A settled hand\<close>

text \<open>
  \<open>settledFor w v w'\<close>: from \<open>w\<close> the hand ended in favour of the player \<open>v\<close>. The whole pot of
  \<open>w\<close> went to \<open>v\<close>'s id through addMoneyToUser and to nobody else (the account of \<open>v\<close>, when
  the ledger has one, grew by the pot; addMoneyToUser skips an id without an account), and
  the game was reset, deactivated and taken out of the registry.
\<close>

definition settledFor :: "World \<Rightarrow> Player \<Rightarrow> World \<Rightarrow> bool" where
  "settledFor w v w' =
     (ledger w' = addMoneyToUser (pid v) (pot (game w)) (ledger w) \<and>
      (case ledger w (pid v) of
         None \<Rightarrow> ledger w' = ledger w
       | Some a \<Rightarrow> ledger w' = (ledger w)(pid v \<mapsto> a + pot (game w))) \<and>
      \<not> isActive (game w') \<and> \<not> registered w' \<and> pot (game w') = 0 \<and>
      round (game w') = waiting)"

section \<open>Outcome of a raise and of an all-in\<close>

text \<open>
  \<open>raisedTo i X w w'\<close>: from \<open>w\<close>, the player to act, with id \<open>i\<close>, raised to the total \<open>X\<close>. In
  \<open>w'\<close> the ids still to act are exactly those of the players who have not folded other than
  \<open>i\<close>, the table bet and the raiser's bet are \<open>X\<close>, and the raiser's seat is the last
  aggressor. \<open>wentAllIn i a w w'\<close>: the player to act, with id \<open>i\<close>, put the whole balance \<open>a\<close>
  in: the bet grew by \<open>a\<close>, the pot grew by \<open>a\<close>, the account is empty, the player is marked
  all-in, and the ids still to act are those of the other players who have not folded.
\<close>

definition raisedTo :: "string \<Rightarrow> int \<Rightarrow> World \<Rightarrow> World \<Rightarrow> bool" where
  "raisedTo i X w w' =
     (toActIds (game w') = map pid (filter (\<lambda>p. \<not> hasFolded p \<and> pid p \<noteq> i) (players (game w'))) \<and>
      set (toActIds (game w')) = pid ` {p \<in> set (players (game w')). \<not> hasFolded p} - {i} \<and>
      currentBet (game w') = X \<and>
      playerBet (players (game w') ! currentPlayerIndex (game w)) = X \<and>
      pid (players (game w') ! currentPlayerIndex (game w)) = i \<and>
      lastAggressorIndex (game w') = Some (currentPlayerIndex (game w)) \<and>
      hasRaiseInRound (game w') \<and> isActive (game w'))"

definition wentAllIn :: "string \<Rightarrow> int \<Rightarrow> World \<Rightarrow> World \<Rightarrow> bool" where
  "wentAllIn i a w w' =
     (toActIds (game w') = map pid (filter (\<lambda>p. \<not> hasFolded p \<and> pid p \<noteq> i) (players (game w'))) \<and>
      set (toActIds (game w')) = pid ` {p \<in> set (players (game w')). \<not> hasFolded p} - {i} \<and>
      pid (players (game w') ! currentPlayerIndex (game w)) = i \<and>
      playerBet (players (game w') ! currentPlayerIndex (game w)) =
        playerBet (players (game w) ! currentPlayerIndex (game w)) + a \<and>
      chips (players (game w') ! currentPlayerIndex (game w)) = 0 \<and>
      isAllIn (players (game w') ! currentPlayerIndex (game w)) \<and>
      pot (game w') = pot (game w) + a \<and>
      ledger w' = (ledger w)(i \<mapsto> 0) \<and>
      currentBet (game w') =
        max (currentBet (game w)) (playerBet (players (game w) ! currentPlayerIndex (game w)) + a) \<and>
      lastAggressorIndex (game w') = Some (currentPlayerIndex (game w)) \<and> isActive (game w'))"

section \<open>Example tables\<close>

text \<open>
  Concrete states on which the theorems are exercised. \<open>lobby\<close> holds no game yet and the
  accounts a (15 tokens) and b (30 tokens); \<open>demoTable\<close> is the two-player hand at a stake of
  10 started from it by startGame and dealt by dealCardsAndStartGame. \<open>lobby3\<close> and
  \<open>demoTable3\<close> are the same with a third account c (20 tokens) and a third player.
  \<open>tieTable\<close> is a river with both players matched, where both hands play the royal flush
  on the board. \<open>afterFold\<close> is the state makeFold hands to moveToNextPlayer when b folds on
  \<open>demoTable\<close>; \<open>bothChecked\<close> is the state makeCheck hands to moveToNextPlayer when a checks
  after b did.
\<close>

definition demoDeck :: "card list" where
  "demoDeck = [(R2, Clubs), (R9, Hearts), (RK, Spades), (R5, Diamonds), (RJ, Clubs), (R7, Hearts),
     (R3, Spades), (RA, Diamonds), (R8, Clubs), (R4, Hearts), (RQ, Diamonds), (R6, Spades),
     (R10, Hearts)]"

definition lobby :: World where
  "lobby = \<lparr>game = newGame 0 [] 0 [], registered = False,
            ledger = [''a'' \<mapsto> 15, ''b'' \<mapsto> 30], nextDeck = createDeck\<rparr>"

definition demoTable :: World where
  "demoTable = (case startGame [''a'', ''b''] 10 demoDeck lobby of
                  Some w \<Rightarrow> dealCardsAndStartGame w | None \<Rightarrow> lobby)"

definition lobby3 :: World where
  "lobby3 = \<lparr>game = newGame 0 [] 0 [], registered = False,
             ledger = [''a'' \<mapsto> 15, ''b'' \<mapsto> 30, ''c'' \<mapsto> 20], nextDeck = createDeck\<rparr>"

definition demoTable3 :: World where
  "demoTable3 = (case startGame [''a'', ''b'', ''c''] 10 demoDeck lobby3 of
                   Some w \<Rightarrow> dealCardsAndStartGame w | None \<Rightarrow> lobby3)"

definition tieTable :: World where
  "tieTable =
     \<lparr>game =
        \<lparr>players =
           [\<lparr>pid = ''a'', chips = 0, seat = 0, hole = [(R2, Diamonds), (R3, Clubs)],
             hasFolded = False, playerBet = 10, isAllIn = False\<rparr>,
            \<lparr>pid = ''b'', chips = 0, seat = 1, hole = [(R2, Hearts), (R3, Diamonds)],
             hasFolded = False, playerBet = 10, isAllIn = False\<rparr>],
         deck = [(R9, Hearts), (R5, Diamonds)], burned = [],
         board = [(RA, Spades), (RK, Spades), (RQ, Spades), (RJ, Spades), (R10, Spades)],
         pot = 40, currentBet = 10, round = river, dealerButton = 0, currentPlayerIndex = 0,
         isActive = True, hasRaiseInRound = True, betAmount = 10, lastAggressorIndex = Some 1,
         toActIds = [], actionHistory = []\<rparr>,
      registered = True, ledger = [''a'' \<mapsto> 5, ''b'' \<mapsto> 7], nextDeck = createDeck\<rparr>"

definition afterFold :: World where
  "afterFold =
     demoTable\<lparr>game := addActionToHistory
        (removeFromToAct
           ((game demoTable)\<lparr>players := (players (game demoTable))
               [1 := (players (game demoTable) ! 1)\<lparr>hasFolded := True\<rparr>]\<rparr>) ''b'')
        ''b'' ActFold None None\<rparr>"

definition bothChecked :: World where
  "bothChecked =
     (snd (makeCheck ''b'' demoTable))\<lparr>game := addActionToHistory
        (removeFromToAct (game (snd (makeCheck ''b'' demoTable))) ''a'') ''a'' ActCheck None None\<rparr>"

section \<open>Golden cases of the evaluator\<close>

lemmas evaluator_defs =
  calculateHandRank_def getBestFiveCardHand_def rankFive_def evaluateBasicHand_def
  keepBetter_def compareHands_def sortDesc_def isFlush_def isStraight_def getCardSuit_def
  countEntries_def findOr0_def Let_def

text \<open>
  Claim C8. The five-card evaluator on the golden hands: ace to ten of one suit is category 10
  (royal flush); 7-7-7-2-2 is category 7 (full house) with kickers [7, 2]; A-2-3-4-5 of mixed
  suits is category 5 (straight) with high card 5, not 14, and compares strictly below the
  6-5-4-3-2 straight.
\<close>

theorem golden_cases:
  "rank (calculateHandRank [(RA, s), (RK, s), (RQ, s), (RJ, s), (R10, s)]) = 10 \<and>
   calculateHandRank [(R7, Clubs), (R7, Diamonds), (R7, Hearts), (R2, Spades), (R2, Clubs)]
     = \<lparr>rank = 7, kickers = [7, 2]\<rparr> \<and>
   calculateHandRank [(RA, Diamonds), (R2, Clubs), (R3, Spades), (R4, Hearts), (R5, Diamonds)]
     = \<lparr>rank = 5, kickers = [5]\<rparr> \<and>
   calculateHandRank [(R6, Diamonds), (R5, Clubs), (R4, Spades), (R3, Hearts), (R2, Diamonds)]
     = \<lparr>rank = 5, kickers = [6]\<rparr> \<and>
   compareHands
     (calculateHandRank [(RA, Diamonds), (R2, Clubs), (R3, Spades), (R4, Hearts), (R5, Diamonds)])
     (calculateHandRank [(R6, Diamonds), (R5, Clubs), (R4, Spades), (R3, Hearts), (R2, Diamonds)])
     < 0"
  by (simp add: evaluator_defs)

section \<open>The best five of seven\<close>

text \<open>
  Claim C2 says that for six or seven cards the evaluator returns a hand at least as good as
  the direct evaluation of every five-card subset. The selection loop compares candidates by
  evaluateBasicHand, whose kicker lists stop at the paired values, and replaces the best
  hand only on a strictly better comparison; among the subsets that hold the same pair the
  first one visited is kept. For the hole cards A, A and the board 2, 3, 4, K, Q the result
  is the pair of aces with kickers 4, 3, 2, which compares strictly below the subset
  A, A, 4, K, Q evaluated on its own.
\<close>

theorem best_five_misses_kickers:
  "[(RA, Spades), (RA, Hearts), (R4, Spades), (RK, Hearts), (RQ, Diamonds)]
     \<in> set (combos 5 [(RA, Spades), (RA, Hearts), (R2, Diamonds), (R3, Clubs), (R4, Spades),
                        (RK, Hearts), (RQ, Diamonds)]) \<and>
   calculateHandRank [(RA, Spades), (RA, Hearts), (R2, Diamonds), (R3, Clubs), (R4, Spades),
                      (RK, Hearts), (RQ, Diamonds)]
     = \<lparr>rank = 2, kickers = [14, 4, 3, 2]\<rparr> \<and>
   calculateHandRank [(RA, Spades), (RA, Hearts), (R4, Spades), (RK, Hearts), (RQ, Diamonds)]
     = \<lparr>rank = 2, kickers = [14, 13, 12, 4]\<rparr> \<and>
   compareHands
     (calculateHandRank [(RA, Spades), (RA, Hearts), (R2, Diamonds), (R3, Clubs), (R4, Spades),
                         (RK, Hearts), (RQ, Diamonds)])
     (calculateHandRank [(RA, Spades), (RA, Hearts), (R4, Spades), (RK, Hearts), (RQ, Diamonds)])
     < 0"
  by code_simp

section \<open>Invariants of reachable states\<close>

lemma notFolded_eq: "notFolded = (\<lambda>p. \<not> hasFolded p)"
  by (rule ext) (simp add: notFolded_def)

lemma ids_seats: "map pid (players g) = map fst (seatsOf g)"
  by (simp add: seatsOf_def comp_def)

lemma nonfolded_seats:
  "map pid (filter notFolded (players g)) = map fst (filter (\<lambda>x. \<not> snd x) (seatsOf g))"
  by (simp add: seatsOf_def filter_map comp_def notFolded_eq)

lemma tableOk_seats:
  "tableOk w =
     (distinct (map fst (seatsOf (game w))) \<and>
      (\<not> registered w \<or> 2 \<le> length (filter (\<lambda>x. \<not> snd x) (seatsOf (game w)))) \<and>
      set (toActIds (game w)) \<subseteq> set (map fst (filter (\<lambda>x. \<not> snd x) (seatsOf (game w)))))"
proof -
  have "length (filter notFolded (players (game w))) = length (map pid (filter notFolded (players (game w))))"
    by simp
  also have "\<dots> = length (filter (\<lambda>x. \<not> snd x) (seatsOf (game w)))"
    by (simp only: nonfolded_seats length_map)
  finally have c: "length (filter notFolded (players (game w))) = length (filter (\<lambda>x. \<not> snd x) (seatsOf (game w)))" .
  have s: "pid ` set (filter notFolded (players (game w))) = set (map fst (filter (\<lambda>x. \<not> snd x) (seatsOf (game w))))"
    using nonfolded_seats[of "game w"] by (metis set_map)
  show ?thesis unfolding tableOk_def ids_seats c s ..
qed

lemma tableOk_continues: "tableOk w \<Longrightarrow> continues w w' \<Longrightarrow> tableOk w'"
  unfolding tableOk_seats continues_def
  by (auto simp: nonfolded_seats)

lemma tableOk_settles: "tableOk w \<Longrightarrow> settles w w' \<Longrightarrow> tableOk w'"
  unfolding tableOk_seats settles_def
  by (auto simp: comp_def filter_map image_iff)

subsection \<open>Dealing leaves seats and obligations alone\<close>

lemma burnCard_keeps [simp]:
  "players (burnCard g) = players g" "toActIds (burnCard g) = toActIds g"
  by (simp_all add: burnCard_def split: prod.splits)

lemma dealBoardCard_keeps [simp]:
  "players (dealBoardCard g) = players g" "toActIds (dealBoardCard g) = toActIds g"
  by (simp_all add: dealBoardCard_def split: prod.splits option.splits)

lemma revealRemainingBoard_keeps [simp]:
  "players (revealRemainingBoard g) = players g"
  "toActIds (revealRemainingBoard g) = toActIds g"
  by (simp_all add: revealRemainingBoard_def revealFlop_def revealTurn_def revealRiver_def Let_def)

lemma tableOk_step: "tableOk w \<Longrightarrow> stepOk w w' \<Longrightarrow> tableOk w'"
  unfolding stepOk_def using tableOk_settles tableOk_continues by blast

lemma same_step:
  "players (game w1) = players (game w) \<Longrightarrow> toActIds (game w1) = toActIds (game w) \<Longrightarrow>
   registered w1 = registered w \<Longrightarrow> stepOk w w1"
  by (simp add: stepOk_def continues_def seatsOf_def)

lemma reset_step:
  "players (game w1) = players (game w) \<Longrightarrow> toActIds (game w1) = toActIds (game w) \<Longrightarrow>
   stepOk w (resetForNextHand w1)"
  by (simp add: stepOk_def settles_def resetForNextHand_def seatsOf_def resetPlayer_def comp_def)

lemma award_step:
  "players (game w1) = players (game w) \<Longrightarrow> toActIds (game w1) = toActIds (game w) \<Longrightarrow>
   registered w1 = registered w \<Longrightarrow> stepOk w (awardPotAndRotate w1 ids)"
  by (simp add: awardPotAndRotate_def Let_def reset_step same_step)

lemma showdown_step:
  "players (game w1) = players (game w) \<Longrightarrow> toActIds (game w1) = toActIds (game w) \<Longrightarrow>
   registered w1 = registered w \<Longrightarrow> stepOk w (handleShowdown w1)"
  by (simp add: handleShowdown_def Let_def reset_step award_step)

lemma allin_showdown_step: "stepOk w (handleAllInShowdown w)"
  by (simp add: handleAllInShowdown_def Let_def reset_step award_step)

lemma firstToAct_keeps [simp]:
  "players (firstToAct g) = players g" "toActIds (firstToAct g) = toActIds g"
  by (simp_all add: firstToAct_def)

lemma newRound_step:
  "players g1 = players (game w) \<Longrightarrow>
   stepOk w (w\<lparr>game := firstToAct (setToActForNewRound g1)\<rparr>)"
  by (simp add: stepOk_def continues_def seatsOf_def setToActForNewRound_def)

lemma advance_step: "stepOk w (advanceToNextRound w)"
  by (cases "round (game w)")
     (simp_all add: advanceToNextRound_def Let_def newRound_step same_step showdown_step)

lemma closeRound_step: "stepOk w (closeRound w)"
  by (simp add: closeRound_def allin_showdown_step advance_step showdown_step)

lemma passTurn_step: "stepOk w (passTurn w)"
  by (simp add: passTurn_def same_step)

lemma moveToNextPlayer_step: "stepOk w (moveToNextPlayer w)"
  by (simp add: moveToNextPlayer_def Let_def award_step closeRound_step passTurn_step)

lemma checkAndContinueGame_step: "stepOk w (checkAndContinueGame w)"
  by (simp add: checkAndContinueGame_def Let_def award_step closeRound_step passTurn_step same_step)

subsection \<open>One player folds\<close>

lemma fold_one_count:
  "\<not> hasFolded p \<Longrightarrow>
   Suc (length (filter notFolded (xs @ p\<lparr>hasFolded := True\<rparr> # ys))) =
     length (filter notFolded (xs @ p # ys))"
  by (simp add: notFolded_eq)

lemma fold_one_toAct:
  "S \<subseteq> pid ` set (filter notFolded (xs @ p # ys)) \<Longrightarrow>
   {j \<in> S. j \<noteq> pid p} \<subseteq> pid ` set (filter notFolded (xs @ p\<lparr>hasFolded := True\<rparr> # ys))"
  by (auto simp: notFolded_eq split: if_splits)

lemma reset_tableOk:
  "distinct (map pid (players (game w))) \<Longrightarrow>
   set (toActIds (game w)) \<subseteq> pid ` set (players (game w)) \<Longrightarrow> tableOk (resetForNextHand w)"
  by (auto simp: tableOk_def resetForNextHand_def resetPlayer_def comp_def notFolded_eq image_image)

lemma award_one_tableOk:
  assumes "distinct (map pid (players (game w)))"
    and "set (toActIds (game w)) \<subseteq> pid ` set (filter notFolded (players (game w)))"
    and "registered w" and "ids \<noteq> []"
  shows "tableOk (awardPotAndRotate w ids)"
proof -
  have "set (toActIds (game w)) \<subseteq> pid ` set (players (game w))"
    using assms(2) by auto
  then show ?thesis
    using assms by (simp add: awardPotAndRotate_def Let_def reset_tableOk)
qed

lemma after_fold_move:
  assumes d: "distinct (map pid (players (game w)))"
    and t: "set (toActIds (game w)) \<subseteq> pid ` set (filter notFolded (players (game w)))"
    and r: "registered w"
    and c: "1 \<le> length (filter notFolded (players (game w)))"
  shows "tableOk (moveToNextPlayer w)" and "tableOk (checkAndContinueGame w)"
proof -
  show "tableOk (moveToNextPlayer w)"
  proof (cases "length (filter notFolded (players (game w))) = 1")
    case True
    then show ?thesis
      using award_one_tableOk[OF d t r] by (simp add: moveToNextPlayer_def Let_def)
  next
    case False
    with c have "2 \<le> length (filter notFolded (players (game w)))" by simp
    with d t have "tableOk w" by (simp add: tableOk_def)
    then show ?thesis using moveToNextPlayer_step tableOk_step by blast
  qed
  show "tableOk (checkAndContinueGame w)"
  proof (cases "length (filter notFolded (players (game w))) = 1")
    case True
    then show ?thesis
      using award_one_tableOk[OF d t r] r by (simp add: checkAndContinueGame_def Let_def)
  next
    case False
    with c have "2 \<le> length (filter notFolded (players (game w)))" by simp
    with d t have "tableOk w" by (simp add: tableOk_def)
    then show ?thesis using checkAndContinueGame_step tableOk_step by blast
  qed
qed

subsection \<open>The actions keep the table well formed\<close>

lemma addActionToHistory_keeps [simp]:
  "players (addActionToHistory g i k a t) = players g"
  "toActIds (addActionToHistory g i k a t) = toActIds g"
  by (simp_all add: addActionToHistory_def split: option.splits)

lemma actingPlayer_Inr:
  "actingPlayer i w = Inr (g, cp) \<Longrightarrow>
   g = game w \<and> registered w \<and> isActive (game w) \<and>
   currentPlayerIndex (game w) < length (players (game w)) \<and>
   cp = players (game w) ! currentPlayerIndex (game w) \<and> pid cp = i \<and> \<not> hasFolded cp"
  by (auto simp: actingPlayer_def getActiveGame_def Let_def split: if_splits)

lemma seats_update_same:
  "idx < length ps \<Longrightarrow> pid p' = pid (ps ! idx) \<Longrightarrow> hasFolded p' = hasFolded (ps ! idx) \<Longrightarrow>
   map (\<lambda>p. (pid p, hasFolded p)) (ps[idx := p']) = map (\<lambda>p. (pid p, hasFolded p)) ps"
  by (simp add: map_update list_update_same_conv)

lemma tableOk_same_seats:
  assumes "tableOk w" and "seatsOf (game w1) = seatsOf (game w)" and "registered w1 = registered w"
    and "set (toActIds (game w1)) \<subseteq> pid ` set (filter notFolded (players (game w1)))"
  shows "tableOk w1"
  using assms nonfolded_seats[of "game w1"] unfolding tableOk_seats
  by (metis set_map)

lemma bet_tableOk:
  assumes ok: "tableOk w" and act: "actingPlayer i w = Inr (g, cp)"
    and ps: "players G = (players g)[currentPlayerIndex g := p']"
    and same: "pid p' = pid cp" "hasFolded p' = hasFolded cp"
    and ta: "set (toActIds G) \<subseteq> set (toActIds (game w)) \<union> pid ` set (filter notFolded (players G))"
  shows "tableOk (w\<lparr>game := G, ledger := L\<rparr>)"
proof -
  from actingPlayer_Inr[OF act] have g: "g = game w"
    and idx: "currentPlayerIndex (game w) < length (players (game w))"
    and cp: "cp = players (game w) ! currentPlayerIndex (game w)" by simp_all
  have seats: "seatsOf G = seatsOf (game w)"
    unfolding seatsOf_def ps g using idx same cp by (simp add: seats_update_same)
  have nf: "pid ` set (filter notFolded (players G)) = pid ` set (filter notFolded (players (game w)))"
    using nonfolded_seats[of G] nonfolded_seats[of "game w"] seats by (metis set_map)
  have "set (toActIds (game w)) \<subseteq> pid ` set (filter notFolded (players (game w)))"
    using ok by (simp add: tableOk_def)
  with ta nf have "set (toActIds G) \<subseteq> pid ` set (filter notFolded (players G))" by auto
  then show ?thesis
    using tableOk_same_seats[OF ok, of "w\<lparr>game := G, ledger := L\<rparr>"] seats by simp
qed

lemma bet_then_move:
  assumes ok: "tableOk w" and act: "actingPlayer i w = Inr (g, cp)"
    and ps: "players G = (players g)[currentPlayerIndex g := p']"
    and same: "pid p' = pid cp" "hasFolded p' = hasFolded cp"
    and ta: "set (toActIds G) \<subseteq> set (toActIds (game w)) \<union> pid ` set (filter notFolded (players G))"
  shows "tableOk (moveToNextPlayer (w\<lparr>game := G, ledger := L\<rparr>))"
  using bet_tableOk[OF assms] moveToNextPlayer_step tableOk_step by blast

lemma raiseBy_tableOk:
  assumes "tableOk w" and "actingPlayer i w = Inr (g, cp)"
  shows "tableOk (snd (raiseBy amt i g cp w))"
  using assms
  by (auto simp: raiseBy_def Let_def setToActAfterRaise_def notFolded_eq intro!: bet_then_move)

lemma makeRaise_tableOk: "tableOk w \<Longrightarrow> tableOk (snd (makeRaise i t w))"
  by (auto simp: makeRaise_def Let_def setToActAfterRaise_def notFolded_eq
      split: sum.splits intro!: bet_then_move)

lemma makeCall_tableOk: "tableOk w \<Longrightarrow> tableOk (snd (makeCall i w))"
  by (auto simp: makeCall_def Let_def removeFromToAct_def
      split: sum.splits intro!: bet_then_move dest: actingPlayer_Inr)

lemma makeCheck_tableOk: "tableOk w \<Longrightarrow> tableOk (snd (makeCheck i w))"
proof (cases "actingPlayer i w")
  case (Inl r)
  assume "tableOk w"
  then show ?thesis using Inl by (simp add: makeCheck_def)
next
  case (Inr gc)
  assume ok: "tableOk w"
  obtain g cp where gc: "gc = (g, cp)" by (cases gc)
  from actingPlayer_Inr[OF Inr[unfolded gc]] have g: "g = game w" by simp
  let ?w1 = "w\<lparr>game := addActionToHistory (removeFromToAct g i) i ActCheck None None\<rparr>"
  have "seatsOf (game ?w1) = seatsOf (game w)"
    by (simp add: seatsOf_def removeFromToAct_def g)
  moreover have "set (toActIds (game ?w1)) \<subseteq> pid ` set (filter notFolded (players (game ?w1)))"
    using ok by (auto simp: tableOk_def removeFromToAct_def g)
  ultimately have "tableOk ?w1" using tableOk_same_seats[OF ok, of ?w1] by simp
  then have "tableOk (moveToNextPlayer ?w1)" using moveToNextPlayer_step tableOk_step by blast
  then show ?thesis using Inr gc ok by (simp add: makeCheck_def)
qed

lemma makeRaiseByBetAmount_tableOk: "tableOk w \<Longrightarrow> tableOk (snd (makeRaiseByBetAmount i w))"
  by (auto simp: makeRaiseByBetAmount_def raiseBy_tableOk split: sum.splits)

lemma makeRaiseByMultiplier_tableOk: "tableOk w \<Longrightarrow> tableOk (snd (makeRaiseByMultiplier i m w))"
  by (auto simp: makeRaiseByMultiplier_def raiseBy_tableOk split: sum.splits)

lemma makeRaiseByPot_tableOk: "tableOk w \<Longrightarrow> tableOk (snd (makeRaiseByPot i w))"
  by (auto simp: makeRaiseByPot_def raiseBy_tableOk split: sum.splits)

lemma history_tableOk:
  "tableOk w \<Longrightarrow> tableOk (w\<lparr>game := addActionToHistory (game w) i k a t\<rparr>)"
  using tableOk_step[OF _ same_step] by simp

lemma makeAllIn_tableOk: "tableOk w \<Longrightarrow> tableOk (snd (makeAllIn i w))"
  by (auto simp: makeAllIn_def Let_def setToActAfterRaise_def notFolded_eq
      split: sum.splits intro!: history_tableOk bet_then_move)

lemma fold_split_move:
  assumes ok: "tableOk w" and r: "registered w"
    and ps: "players (game w) = xs @ p # ys" and nf: "\<not> hasFolded p"
    and ps1: "players (game w1) = xs @ p\<lparr>hasFolded := True\<rparr> # ys"
    and ta: "toActIds (game w1) = filter (\<lambda>j. j \<noteq> pid p) (toActIds (game w))"
    and r1: "registered w1"
  shows "tableOk (moveToNextPlayer w1)" and "tableOk (checkAndContinueGame w1)"
proof -
  have d: "distinct (map pid (players (game w1)))"
    using ok unfolding tableOk_def ps ps1 by simp
  have "set (toActIds (game w)) \<subseteq> pid ` set (filter notFolded (xs @ p # ys))"
    using ok unfolding tableOk_def ps by simp
  from fold_one_toAct[OF this]
  have t: "set (toActIds (game w1)) \<subseteq> pid ` set (filter notFolded (players (game w1)))"
    unfolding ta ps1 by auto
  have "2 \<le> length (filter notFolded (xs @ p # ys))"
    using ok r unfolding tableOk_def ps by simp
  with fold_one_count[OF nf, of xs ys]
  have c: "1 \<le> length (filter notFolded (players (game w1)))"
    unfolding ps1 by linarith
  show "tableOk (moveToNextPlayer w1)" "tableOk (checkAndContinueGame w1)"
    using after_fold_move[OF d t r1 c] by simp_all
qed

lemma makeFold_tableOk: "tableOk w \<Longrightarrow> tableOk (snd (makeFold i w))"
proof (cases "actingPlayer i w")
  case (Inl r)
  assume "tableOk w"
  then show ?thesis using Inl by (simp add: makeFold_def)
next
  case (Inr gc)
  assume ok: "tableOk w"
  obtain g cp where gc: "gc = (g, cp)" by (cases gc)
  from actingPlayer_Inr[OF Inr[unfolded gc]] have g: "g = game w" and r: "registered w"
    and idx: "currentPlayerIndex (game w) < length (players (game w))"
    and cp: "cp = players (game w) ! currentPlayerIndex (game w)" and nf: "\<not> hasFolded cp"
    and i: "pid cp = i" by auto
  let ?k = "currentPlayerIndex (game w)"
  let ?xs = "take ?k (players (game w))" and ?ys = "drop (Suc ?k) (players (game w))"
  let ?w1 = "w\<lparr>game := addActionToHistory
      (removeFromToAct (g\<lparr>players := (players g)[currentPlayerIndex g := cp\<lparr>hasFolded := True\<rparr>]\<rparr>) i)
      i ActFold None None\<rparr>"
  have ps: "players (game w) = ?xs @ cp # ?ys"
    using idx cp by (simp add: id_take_nth_drop[symmetric])
  have ps1: "players (game ?w1) = ?xs @ cp\<lparr>hasFolded := True\<rparr> # ?ys"
    using idx by (simp add: removeFromToAct_def g upd_conv_take_nth_drop)
  have ta: "toActIds (game ?w1) = filter (\<lambda>j. j \<noteq> pid cp) (toActIds (game w))"
    by (simp add: removeFromToAct_def g i)
  have "tableOk (moveToNextPlayer ?w1)"
    using fold_split_move(1)[OF ok r ps nf ps1 ta] r by simp
  then show ?thesis using Inr gc by (simp add: makeFold_def Let_def)
qed

lemma handleTurnTimeout_tableOk: "tableOk w \<Longrightarrow> tableOk (handleTurnTimeout i w)"
  by (simp add: handleTurnTimeout_def Let_def makeFold_tableOk)

lemma foldFirst_split:
  "find (\<lambda>p. pid p = i) ps = Some q \<Longrightarrow>
   \<exists>xs ys. ps = xs @ q # ys \<and> foldFirst i ps = xs @ q\<lparr>hasFolded := True\<rparr> # ys \<and> pid q = i"
proof (induction ps)
  case Nil
  then show ?case by simp
next
  case (Cons p ps)
  show ?case
  proof (cases "pid p = i")
    case True
    with Cons.prems have "q = p" by simp
    with True show ?thesis by (intro exI[of _ "[]"] exI[of _ ps]) simp
  next
    case False
    with Cons.prems have "find (\<lambda>p. pid p = i) ps = Some q" by simp
    from Cons.IH[OF this] obtain xs ys where
      "ps = xs @ q # ys" "foldFirst i ps = xs @ q\<lparr>hasFolded := True\<rparr> # ys" "pid q = i" by blast
    with False show ?thesis by (intro exI[of _ "p # xs"] exI[of _ ys]) simp
  qed
qed

lemma handleInsufficientFundsTimeout_tableOk:
  assumes ok: "tableOk w"
  shows "tableOk (handleInsufficientFundsTimeout i w)"
proof (cases "registered w")
  case False
  then show ?thesis using ok by (simp add: handleInsufficientFundsTimeout_def)
next
  case r: True
  show ?thesis
  proof (cases "find (\<lambda>p. pid p = i) (players (game w))")
    case None
    then show ?thesis using ok by (simp add: handleInsufficientFundsTimeout_def)
  next
    case (Some q)
    show ?thesis
    proof (cases "hasFolded q \<or> \<not> userAmountOf (ledger w) i < currentBet (game w) - playerBet q")
      case True
      then show ?thesis using ok Some by (auto simp: handleInsufficientFundsTimeout_def Let_def)
    next
      case False
      then have nf: "\<not> hasFolded q" by simp
      from foldFirst_split[OF Some] obtain xs ys where
        ps: "players (game w) = xs @ q # ys"
        and ff: "foldFirst i (players (game w)) = xs @ q\<lparr>hasFolded := True\<rparr> # ys"
        and i: "pid q = i" by blast
      let ?w1 = "w\<lparr>game := removeFromToAct ((game w)\<lparr>players := foldFirst i (players (game w))\<rparr>) i\<rparr>"
      have ps1: "players (game ?w1) = xs @ q\<lparr>hasFolded := True\<rparr> # ys"
        by (simp add: removeFromToAct_def ff)
      have ta: "toActIds (game ?w1) = filter (\<lambda>j. j \<noteq> pid q) (toActIds (game w))"
        by (simp add: removeFromToAct_def i)
      have "tableOk (checkAndContinueGame ?w1)"
        using fold_split_move(2)[OF ok r ps nf ps1 ta] r by simp
      then show ?thesis using False Some r
        by (simp add: handleInsufficientFundsTimeout_def Let_def)
    qed
  qed
qed

subsection \<open>Starting and dealing\<close>

lemma seatsOf_dealHoleCard [simp]: "seatsOf (dealHoleCard g idx) = seatsOf g"
proof (cases "idx < length (players g)")
  case True
  then show ?thesis
    by (simp add: dealHoleCard_def seatsOf_def seats_update_same split: prod.splits option.splits)
next
  case False
  then show ?thesis
    by (simp add: dealHoleCard_def seatsOf_def list_update_beyond not_less
        split: prod.splits option.splits)
qed

lemma seatsOf_foldl_deal [simp]: "seatsOf (foldl dealHoleCard g idxs) = seatsOf g"
  by (induction idxs arbitrary: g) simp_all

lemma seatsOf_dealRound [simp]: "seatsOf (dealRound g) = seatsOf g"
  by (simp add: dealRound_def)

lemma seatsOf_round_update [simp]: "seatsOf (g\<lparr>round := r\<rparr>) = seatsOf g"
  by (simp add: seatsOf_def)

lemma seatsOf_postBlinds [simp]: "seatsOf (postBlinds g) = seatsOf g"
  by (simp add: postBlinds_def Let_def seatsOf_def setToActForNewRound_def comp_def)

lemma toActIds_postBlinds:
  "toActIds (postBlinds g) = map pid (filter notFolded (players (postBlinds g)))"
  by (simp add: postBlinds_def Let_def setToActForNewRound_def)

lemma dealCardsAndStartGame_tableOk:
  assumes ok: "tableOk w"
  shows "tableOk (dealCardsAndStartGame w)"
proof (cases "registered w")
  case False
  then show ?thesis using ok by (simp add: dealCardsAndStartGame_def)
next
  case True
  let ?w1 = "w\<lparr>game := postBlinds ((dealRound (dealRound (game w)))\<lparr>round := preflop\<rparr>)\<rparr>"
  have "tableOk ?w1"
    using tableOk_same_seats[OF ok, of ?w1] by (simp add: toActIds_postBlinds)
  then show ?thesis using True by (simp add: dealCardsAndStartGame_def)
qed

lemma newGame_tableOk:
  assumes "2 \<le> length playerIds" and "distinct playerIds"
  shows "tableOk (w\<lparr>game := newGame c playerIds betAmt d, registered := True, ledger := l\<rparr>)"
proof -
  have "pid \<circ> newPlayer c = snd"
    by (rule ext) (simp add: newPlayer_def)
  then have ids: "map (pid \<circ> newPlayer c) (enumerate 0 playerIds) = playerIds"
    by simp
  have nf: "filter notFolded (map (newPlayer c) (enumerate 0 playerIds)) = map (newPlayer c) (enumerate 0 playerIds)"
    by (simp add: notFolded_eq newPlayer_def)
  show ?thesis
    using assms by (simp add: tableOk_def newGame_def ids nf)
qed

lemma startGame_tableOk:
  "2 \<le> length playerIds \<Longrightarrow> distinct playerIds \<Longrightarrow>
   startGame playerIds betAmt d w0 = Some w \<Longrightarrow> tableOk w"
  using newGame_tableOk[where playerIds = playerIds and w = w0 and c = 0 and betAmt = betAmt and d = d]
  by (auto simp: startGame_def Let_def split: if_splits)

lemma createNewGame_tableOk:
  "2 \<le> length playerIds \<Longrightarrow> distinct playerIds \<Longrightarrow>
   tableOk (createNewGame playerIds betAmt d w0)"
  using newGame_tableOk[where playerIds = playerIds and w = w0 and c = betAmt and betAmt = betAmt
      and d = d and l = "ledger w0"]
  by (simp add: createNewGame_def dealCardsAndStartGame_tableOk)

lemma ledger_tableOk: "tableOk w \<Longrightarrow> tableOk (w\<lparr>ledger := l\<rparr>)"
  by (simp add: tableOk_def)

lemma reachable_tableOk: "reachable w \<Longrightarrow> tableOk w"
proof (induction rule: reachable.induct)
  case (reach_start playerIds betAmt d w0 w)
  then show ?case by (rule startGame_tableOk)
next
  case (reach_continue playerIds betAmt d w0)
  then show ?case by (rule createNewGame_tableOk)
next
  case (reach_deal w)
  then show ?case by (simp add: dealCardsAndStartGame_tableOk)
next
  case (reach_raise w i toTotal)
  then show ?case by (simp add: makeRaise_tableOk)
next
  case (reach_call w i)
  then show ?case by (simp add: makeCall_tableOk)
next
  case (reach_check w i)
  then show ?case by (simp add: makeCheck_tableOk)
next
  case (reach_fold w i)
  then show ?case by (simp add: makeFold_tableOk)
next
  case (reach_raise_bet w i)
  then show ?case by (simp add: makeRaiseByBetAmount_tableOk)
next
  case (reach_raise_mult w i m)
  then show ?case by (simp add: makeRaiseByMultiplier_tableOk)
next
  case (reach_raise_pot w i)
  then show ?case by (simp add: makeRaiseByPot_tableOk)
next
  case (reach_allin w i)
  then show ?case by (simp add: makeAllIn_tableOk)
next
  case (reach_turn_timeout w i)
  then show ?case by (simp add: handleTurnTimeout_tableOk)
next
  case (reach_funds_timeout w i)
  then show ?case by (simp add: handleInsufficientFundsTimeout_tableOk)
next
  case (reach_ledger w l)
  then show ?case by (simp add: ledger_tableOk)
qed

section \<open>The example table is reachable\<close>

lemma demoTable_reachable: "reachable demoTable"
proof -
  have "startGame [''a'', ''b''] 10 demoDeck lobby \<noteq> None"
    by (simp add: startGame_def deductPlayersFunds_def)
  then obtain w where w: "startGame [''a'', ''b''] 10 demoDeck lobby = Some w" by blast
  have "reachable w" by (rule reach_start[OF _ _ w]) simp_all
  then have "reachable (dealCardsAndStartGame w)" by (rule reach_deal)
  then show ?thesis by (simp add: demoTable_def w)
qed

section \<open>Rejected actions\<close>

lemma actingPlayer_rejects:
  assumes "\<not> (registered w \<and> isActive (game w)) \<or>
           (currentPlayerIndex (game w) < length (players (game w)) \<and>
            (pid (players (game w) ! currentPlayerIndex (game w)) \<noteq> i \<or>
             hasFolded (players (game w) ! currentPlayerIndex (game w))))"
  shows "\<exists>f. f \<in> {NoActiveGame, NotYourTurn, AlreadyFolded} \<and> actingPlayer i w = Inl (Failure f)"
  using assms by (auto simp: actingPlayer_def getActiveGame_def Let_def)

text \<open>
  Claim C3. When there is no active game, or the acting id is not the id of the player at
  \<^verbatim>\<open>currentPlayerIndex\<close>, or that player has folded, each of the eight actions (call, check,
  fold, the four raises, all-in) returns a failure (no active game, not your turn, already
  folded) and leaves the whole state as it was: the game with its players, pot, bets,
  round, obligations, history and turn, and also the registry and the ledger.
\<close>

theorem rejected_action_changes_nothing:
  assumes "\<not> (registered w \<and> isActive (game w)) \<or>
           (currentPlayerIndex (game w) < length (players (game w)) \<and>
            (pid (players (game w) ! currentPlayerIndex (game w)) \<noteq> i \<or>
             hasFolded (players (game w) ! currentPlayerIndex (game w))))"
  shows "\<exists>f. f \<in> {NoActiveGame, NotYourTurn, AlreadyFolded} \<and>
             makeCall i w = (Failure f, w) \<and> makeCheck i w = (Failure f, w) \<and>
             makeFold i w = (Failure f, w) \<and> makeRaise i toTotal w = (Failure f, w) \<and>
             makeRaiseByBetAmount i w = (Failure f, w) \<and>
             makeRaiseByMultiplier i m w = (Failure f, w) \<and>
             makeRaiseByPot i w = (Failure f, w) \<and> makeAllIn i w = (Failure f, w)"
proof -
  from actingPlayer_rejects[OF assms] obtain f where
    f: "f \<in> {NoActiveGame, NotYourTurn, AlreadyFolded}" and a: "actingPlayer i w = Inl (Failure f)"
    by blast
  show ?thesis
    using f
    by (intro exI[of _ f])
       (simp add: a makeCall_def makeCheck_def makeFold_def makeRaise_def
          makeRaiseByBetAmount_def makeRaiseByMultiplier_def makeRaiseByPot_def makeAllIn_def)
qed

theorem rejected_action_changes_nothing_witness:
  "currentPlayerIndex (game demoTable) < length (players (game demoTable)) \<and>
   pid (players (game demoTable) ! currentPlayerIndex (game demoTable)) \<noteq> ''a'' \<and>
   makeCall ''a'' demoTable = (Failure NotYourTurn, demoTable) \<and>
   makeAllIn ''a'' demoTable = (Failure NotYourTurn, demoTable)"
proof -
  have h: "currentPlayerIndex (game demoTable) < length (players (game demoTable)) \<and>
      pid (players (game demoTable) ! currentPlayerIndex (game demoTable)) \<noteq> ''a''"
    by code_simp
  from h rejected_action_changes_nothing[of demoTable "''a''" 0 0]
  obtain f where f: "makeCall ''a'' demoTable = (Failure f, demoTable)"
      "makeAllIn ''a'' demoTable = (Failure f, demoTable)" by blast
  have "fst (makeCall ''a'' demoTable) = Failure NotYourTurn" by code_simp
  with f have "f = NotYourTurn" by simp
  with f h show ?thesis by simp
qed

section \<open>Obligations stay within the players who have not folded\<close>

lemma step_keeps_out:
  assumes "stepOk w1 w'" and "i \<notin> set (toActIds (game w1))"
    and "i \<notin> pid ` set (filter notFolded (players (game w1)))"
  shows "i \<notin> set (toActIds (game w'))"
  using assms unfolding stepOk_def settles_def continues_def by auto

lemma makeFold_removes:
  assumes ok: "tableOk w" and s: "fst (makeFold i w) = Success"
  shows "i \<notin> set (toActIds (game (snd (makeFold i w))))"
proof (cases "actingPlayer i w")
  case (Inl r)
  then show ?thesis using s actingPlayer_rejects by (auto simp: makeFold_def actingPlayer_def Let_def getActiveGame_def split: option.splits if_splits)
next
  case (Inr gc)
  obtain g cp where gc: "gc = (g, cp)" by (cases gc)
  from actingPlayer_Inr[OF Inr[unfolded gc]] have g: "g = game w"
    and idx: "currentPlayerIndex (game w) < length (players (game w))"
    and cp: "cp = players (game w) ! currentPlayerIndex (game w)" and i: "pid cp = i" by auto
  let ?k = "currentPlayerIndex (game w)"
  let ?xs = "take ?k (players (game w))" and ?ys = "drop (Suc ?k) (players (game w))"
  let ?w1 = "w\<lparr>game := addActionToHistory
      (removeFromToAct (g\<lparr>players := (players g)[currentPlayerIndex g := cp\<lparr>hasFolded := True\<rparr>]\<rparr>) i)
      i ActFold None None\<rparr>"
  have ps: "players (game w) = ?xs @ cp # ?ys"
    using idx cp by (simp add: id_take_nth_drop[symmetric])
  have ps1: "players (game ?w1) = ?xs @ cp\<lparr>hasFolded := True\<rparr> # ?ys"
    using idx by (simp add: removeFromToAct_def g upd_conv_take_nth_drop)
  have d: "distinct (map pid (?xs @ cp # ?ys))"
    using ok unfolding tableOk_def ps[symmetric] by simp
  have a: "i \<notin> set (toActIds (game ?w1))" by (simp add: removeFromToAct_def)
  have b: "i \<notin> pid ` set (filter notFolded (players (game ?w1)))"
    unfolding ps1 using d i by (auto simp: notFolded_eq)
  have "i \<notin> set (toActIds (game (moveToNextPlayer ?w1)))"
    using step_keeps_out[OF moveToNextPlayer_step a b] .
  then show ?thesis using Inr gc by (simp add: makeFold_def Let_def)
qed

lemma advance_sets_toAct:
  "round (game w) \<in> {preflop, flop, turn} \<Longrightarrow>
   toActIds (game (advanceToNextRound w)) = map pid (filter notFolded (players (game w)))"
  by (auto simp: advanceToNextRound_def Let_def setToActForNewRound_def)

text \<open>
  Claim C9. In every state reachable from a fresh hand by the deal, the actions and the
  forced folds, the ids still to act are ids of players who have not folded. Entering the
  flop, turn or river sets them to all players who have not folded, and after a successful
  fold the folding id is not among them.
\<close>

theorem toAct_within_contenders:
  assumes "reachable w"
  shows "set (toActIds (game w)) \<subseteq> pid ` {p \<in> set (players (game w)). \<not> hasFolded p} \<and>
         (round (game w) \<in> {preflop, flop, turn} \<longrightarrow>
            toActIds (game (advanceToNextRound w)) =
              map pid (filter (\<lambda>p. \<not> hasFolded p) (players (game w)))) \<and>
         (fst (makeFold i w) = Success \<longrightarrow> i \<notin> set (toActIds (game (snd (makeFold i w)))))"
  using reachable_tableOk[OF assms] advance_sets_toAct[of w] makeFold_removes[of w i]
  by (auto simp: tableOk_def notFolded_eq)

theorem toAct_within_contenders_witness:
  "reachable demoTable \<and>
   set (toActIds (game demoTable)) \<subseteq> pid ` {p \<in> set (players (game demoTable)). \<not> hasFolded p} \<and>
   fst (makeFold ''b'' demoTable) = Success \<and>
   ''b'' \<notin> set (toActIds (game (snd (makeFold ''b'' demoTable))))"
proof -
  have "fst (makeFold ''b'' demoTable) = Success" by code_simp
  then show ?thesis
    using demoTable_reachable toAct_within_contenders[OF demoTable_reachable, of "''b''"] by simp
qed

section \<open>Collecting the stakes\<close>

lemma deductOne_skips:
  "l i = None \<or> (\<exists>a. l i = Some a \<and> a < betAmt) \<Longrightarrow>
   deductOne betAmt l j i = l i \<and>
   (deductOne betAmt l j i = None \<or> (\<exists>a. deductOne betAmt l j i = Some a \<and> a < betAmt))"
  by (auto simp: deductOne_def split: option.splits)

lemma foldl_deductOne_skips:
  "l i = None \<or> (\<exists>a. l i = Some a \<and> a < betAmt) \<Longrightarrow> foldl (deductOne betAmt) l playerIds i = l i"
proof (induction playerIds arbitrary: l)
  case Nil
  then show ?case by simp
next
  case (Cons j js)
  have "foldl (deductOne betAmt) (deductOne betAmt l j) js i = deductOne betAmt l j i"
    using Cons.prems deductOne_skips[of l i betAmt j] by (intro Cons.IH) auto
  then show ?case using Cons.prems deductOne_skips[of l i betAmt j] by simp
qed

text \<open>
  Claim C10. deductPlayersFunds reports success for every input; a listed player without an
  account, or with less than the stake, keeps the ledger entry unchanged (is not debited);
  startGame nevertheless sets the pot to the number of players times the stake. So a hand
  can begin with a pot larger than what was collected: with a holding 100 and b holding no
  account at a stake of 100, the pot is 200 while only a's 100 were taken.
\<close>

theorem deduct_always_succeeds:
  "fst (deductPlayersFunds playerIds betAmt l) \<and>
   (\<forall>i. l i = None \<or> (\<exists>a. l i = Some a \<and> a < betAmt) \<longrightarrow>
        snd (deductPlayersFunds playerIds betAmt l) i = l i) \<and>
   (\<exists>w. startGame playerIds betAmt d w0 = Some w \<and>
        pot (game w) = int (length playerIds) * betAmt) \<and>
   (\<exists>w. startGame [''a'', ''b''] 100 d (w0\<lparr>ledger := [''a'' \<mapsto> 100]\<rparr>) = Some w \<and>
        pot (game w) = 200 \<and> ledger w ''a'' = Some 0 \<and> ledger w ''b'' = None)"
  by (simp add: deductPlayersFunds_def foldl_deductOne_skips startGame_def newGame_def deductOne_def)

theorem deduct_always_succeeds_witness:
  "fst (deductPlayersFunds [''a'', ''b''] 100 [''a'' \<mapsto> 100, ''b'' \<mapsto> 40]) \<and>
   snd (deductPlayersFunds [''a'', ''b''] 100 [''a'' \<mapsto> 100, ''b'' \<mapsto> 40]) ''b'' = Some 40 \<and>
   snd (deductPlayersFunds [''a'', ''b''] 100 [''a'' \<mapsto> 100, ''b'' \<mapsto> 40]) ''a'' = Some 0"
  using deduct_always_succeeds [of "[''a'', ''b'']" 100 "[''a'' \<mapsto> 100, ''b'' \<mapsto> 40]"]
  by (simp add: deductPlayersFunds_def deductOne_def)

section \<open>Fold-out\<close>

lemma find_winner:
  "v \<in> set ps \<Longrightarrow> \<exists>p. find (\<lambda>p. pid p \<in> set [pid v]) ps = Some p \<and> pid p = pid v"
  by (induction ps) auto

lemma award_single:
  assumes "registered w" and "v \<in> set (players (game w))"
  shows "awardPotAndRotate w [pid v] =
         resetForNextHand (w\<lparr>ledger := addMoneyToUser (pid v) (pot (game w)) (ledger w)\<rparr>)"
proof -
  from find_winner[OF assms(2)] obtain p where
    "find (\<lambda>p. pid p \<in> set [pid v]) (players (game w)) = Some p" "pid p = pid v" by blast
  then show ?thesis using assms(1) by (simp add: awardPotAndRotate_def Let_def)
qed

lemma last_contender_wins:
  assumes r: "registered w" and one: "filter notFolded (players (game w)) = [v]"
  shows "moveToNextPlayer w =
           resetForNextHand (w\<lparr>ledger := addMoneyToUser (pid v) (pot (game w)) (ledger w)\<rparr>)"
    and "checkAndContinueGame w =
           resetForNextHand (w\<lparr>ledger := addMoneyToUser (pid v) (pot (game w)) (ledger w)\<rparr>)"
proof -
  have "v \<in> set (filter notFolded (players (game w)))" using one by simp
  then have v: "v \<in> set (players (game w))" by simp
  show "moveToNextPlayer w =
           resetForNextHand (w\<lparr>ledger := addMoneyToUser (pid v) (pot (game w)) (ledger w)\<rparr>)"
    using award_single[OF r v] one by (simp add: moveToNextPlayer_def Let_def)
  show "checkAndContinueGame w =
           resetForNextHand (w\<lparr>ledger := addMoneyToUser (pid v) (pot (game w)) (ledger w)\<rparr>)"
    using award_single[OF r v] one r by (simp add: checkAndContinueGame_def Let_def)
qed

lemma settledFor_reset:
  "pot (game w1) = pot (game w) \<Longrightarrow> ledger w1 = ledger w \<Longrightarrow>
   settledFor w v (resetForNextHand (w1\<lparr>ledger := addMoneyToUser (pid v) (pot (game w1)) (ledger w1)\<rparr>))"
  by (simp add: settledFor_def resetForNextHand_def addMoneyToUser_def split: option.splits)

lemma makeFold_fold_out:
  assumes r: "registered w" and a: "isActive (game w)"
    and k: "currentPlayerIndex (game w) < length (players (game w))"
    and i: "pid (players (game w) ! currentPlayerIndex (game w)) = i"
    and nf: "\<not> hasFolded (players (game w) ! currentPlayerIndex (game w))"
    and one: "filter notFolded ((players (game w))[currentPlayerIndex (game w) :=
                (players (game w) ! currentPlayerIndex (game w))\<lparr>hasFolded := True\<rparr>]) = [v]"
  shows "fst (makeFold i w) = Success \<and> settledFor w v (snd (makeFold i w)) \<and>
         handleTurnTimeout i w = snd (makeFold i w)"
proof -
  let ?cp = "players (game w) ! currentPlayerIndex (game w)"
  have act: "actingPlayer i w = Inr (game w, ?cp)"
    using r a k i nf by (simp add: actingPlayer_def getActiveGame_def Let_def)
  let ?w1 = "w\<lparr>game := addActionToHistory
      (removeFromToAct ((game w)\<lparr>players := (players (game w))[currentPlayerIndex (game w) := ?cp\<lparr>hasFolded := True\<rparr>]\<rparr>) i)
      i ActFold None None\<rparr>"
  have mf: "makeFold i w = (Success, moveToNextPlayer ?w1)"
    by (simp add: makeFold_def act Let_def)
  have one1: "filter notFolded (players (game ?w1)) = [v]"
    using one by (simp add: removeFromToAct_def)
  have p1: "pot (game ?w1) = pot (game w)"
    by (simp add: addActionToHistory_def removeFromToAct_def split: option.splits)
  have "moveToNextPlayer ?w1 =
      resetForNextHand (?w1\<lparr>ledger := addMoneyToUser (pid v) (pot (game ?w1)) (ledger ?w1)\<rparr>)"
    using last_contender_wins(1)[of ?w1 v] r one1 by simp
  moreover have "settledFor w v
      (resetForNextHand (?w1\<lparr>ledger := addMoneyToUser (pid v) (pot (game ?w1)) (ledger ?w1)\<rparr>))"
    by (rule settledFor_reset[OF p1]) simp
  ultimately have "settledFor w v (moveToNextPlayer ?w1)" by simp
  then show ?thesis using mf k i nf by (simp add: handleTurnTimeout_def Let_def)
qed

lemma fundsTimeout_fold_out:
  assumes r: "registered w"
    and f: "find (\<lambda>p. pid p = i) (players (game w)) = Some q"
    and nf: "\<not> hasFolded q"
    and short: "userAmountOf (ledger w) i < currentBet (game w) - playerBet q"
    and one: "filter notFolded (foldFirst i (players (game w))) = [v]"
  shows "settledFor w v (handleInsufficientFundsTimeout i w)"
proof -
  let ?w1 = "w\<lparr>game := removeFromToAct ((game w)\<lparr>players := foldFirst i (players (game w))\<rparr>) i\<rparr>"
  have h: "handleInsufficientFundsTimeout i w = checkAndContinueGame ?w1"
    using r f nf short by (simp add: handleInsufficientFundsTimeout_def Let_def)
  have one1: "filter notFolded (players (game ?w1)) = [v]"
    using one by (simp add: removeFromToAct_def)
  have p1: "pot (game ?w1) = pot (game w)" by (simp add: removeFromToAct_def)
  have "checkAndContinueGame ?w1 =
      resetForNextHand (?w1\<lparr>ledger := addMoneyToUser (pid v) (pot (game ?w1)) (ledger ?w1)\<rparr>)"
    using last_contender_wins(2)[of ?w1 v] r one1 by simp
  moreover have "settledFor w v
      (resetForNextHand (?w1\<lparr>ledger := addMoneyToUser (pid v) (pot (game ?w1)) (ledger ?w1)\<rparr>))"
    by (rule settledFor_reset[OF p1]) simp
  ultimately show ?thesis using h by simp
qed

text \<open>
  Claim C6. In an active game, in any round, when the fold of the player to act (by makeFold,
  or forced by the turn timer, which calls makeFold) leaves exactly one player \<open>v\<close> who has
  not folded, the action succeeds and the hand is settled for \<open>v\<close> at once: the whole pot is
  credited to \<open>v\<close>'s id and the game is reset and closed. The same holds when the grace timer
  of a player who cannot afford the call folds that player and one player is left. No
  hypothesis mentions the round or any card: no hand is compared and no river has to close.
\<close>

theorem fold_out_ends_hand:
  "(registered w \<and> isActive (game w) \<and>
    currentPlayerIndex (game w) < length (players (game w)) \<and>
    pid (players (game w) ! currentPlayerIndex (game w)) = i \<and>
    \<not> hasFolded (players (game w) ! currentPlayerIndex (game w)) \<and>
    filter notFolded ((players (game w))[currentPlayerIndex (game w) :=
        (players (game w) ! currentPlayerIndex (game w))\<lparr>hasFolded := True\<rparr>]) = [v]
    \<longrightarrow> fst (makeFold i w) = Success \<and> settledFor w v (snd (makeFold i w)) \<and>
        handleTurnTimeout i w = snd (makeFold i w)) \<and>
   (registered w \<and> find (\<lambda>p. pid p = i) (players (game w)) = Some q \<and> \<not> hasFolded q \<and>
    userAmountOf (ledger w) i < currentBet (game w) - playerBet q \<and>
    filter notFolded (foldFirst i (players (game w))) = [v]
    \<longrightarrow> settledFor w v (handleInsufficientFundsTimeout i w))"
  using makeFold_fold_out[of w i v] fundsTimeout_fold_out[of w i q v] by blast

theorem fold_out_ends_hand_witness:
  "fst (makeFold ''c'' (snd (makeFold ''b'' demoTable3))) = Success \<and>
   settledFor (snd (makeFold ''b'' demoTable3)) (players (game demoTable3) ! 0)
     (snd (makeFold ''c'' (snd (makeFold ''b'' demoTable3)))) \<and>
   pot (game (snd (makeFold ''b'' demoTable3))) = 30 \<and>
   ledger (snd (makeFold ''b'' demoTable3)) ''a'' = Some 5 \<and>
   ledger (snd (makeFold ''c'' (snd (makeFold ''b'' demoTable3)))) ''a'' = Some 35 \<and>
   settledFor (snd (makeRaiseByBetAmount ''b'' demoTable)) (players (game (snd (makeRaiseByBetAmount ''b'' demoTable))) ! 1)
     (handleInsufficientFundsTimeout ''a'' (snd (makeRaiseByBetAmount ''b'' demoTable)))"
proof -
  let ?w = "snd (makeFold ''b'' demoTable3)"
  let ?v = "players (game demoTable3) ! 0"
  have h1: "registered ?w \<and> isActive (game ?w) \<and>
    currentPlayerIndex (game ?w) < length (players (game ?w)) \<and>
    pid (players (game ?w) ! currentPlayerIndex (game ?w)) = ''c'' \<and>
    \<not> hasFolded (players (game ?w) ! currentPlayerIndex (game ?w)) \<and>
    filter notFolded ((players (game ?w))[currentPlayerIndex (game ?w) :=
        (players (game ?w) ! currentPlayerIndex (game ?w))\<lparr>hasFolded := True\<rparr>]) = [?v]"
    by code_simp
  let ?w2 = "snd (makeRaiseByBetAmount ''b'' demoTable)"
  let ?q = "players (game ?w2) ! 0"
  let ?v2 = "players (game ?w2) ! 1"
  have h2: "registered ?w2 \<and> find (\<lambda>p. pid p = ''a'') (players (game ?w2)) = Some ?q \<and> \<not> hasFolded ?q \<and>
    userAmountOf (ledger ?w2) ''a'' < currentBet (game ?w2) - playerBet ?q \<and>
    filter notFolded (foldFirst ''a'' (players (game ?w2))) = [?v2]"
    by code_simp
  have v: "pot (game ?w) = 30 \<and> ledger ?w ''a'' = Some 5 \<and>
     ledger (snd (makeFold ''c'' ?w)) ''a'' = Some 35"
    by code_simp
  from h1 fold_out_ends_hand[of ?w "''c''" ?v]
  have a: "fst (makeFold ''c'' ?w) = Success \<and> settledFor ?w ?v (snd (makeFold ''c'' ?w))"
    by blast
  from h2 fold_out_ends_hand[of ?w2 "''a''" ?v2 ?q]
  have b: "settledFor ?w2 ?v2 (handleInsufficientFundsTimeout ''a'' ?w2)"
    by blast
  from a b v show ?thesis by simp
qed

section \<open>Showdown\<close>

lemma set_insertBy: "set (insertBy cmp x ys) = insert x (set ys)"
  by (induction ys) auto

lemma set_foldl_insertBy:
  "set (foldl (\<lambda>acc x. insertBy cmp x acc) acc xs) = set acc \<union> set xs"
  by (induction xs arbitrary: acc) (auto simp: set_insertBy)

lemma set_sortBy: "set (sortBy cmp xs) = set xs"
  by (simp add: sortBy_def set_foldl_insertBy)

lemma showdown_winner_contends:
  assumes "contenders \<noteq> []"
  shows "fst (hd (rankContenders g contenders)) \<in> set contenders"
proof -
  let ?r = "rankContenders g contenders"
  have s: "set ?r = set (map (\<lambda>p. (p, calculateHandRank (hole p @ board g))) contenders)"
    by (simp add: rankContenders_def set_sortBy)
  with assms have "?r \<noteq> []" by auto
  then have "hd ?r \<in> set ?r" by simp
  with s show ?thesis by auto
qed

lemma dealing_keeps_pot [simp]:
  "pot (burnCard g) = pot g" "pot (dealBoardCard g) = pot g"
  by (simp_all add: burnCard_def dealBoardCard_def split: prod.splits option.splits)

lemma reveal_keeps_pot [simp]: "pot (revealRemainingBoard g) = pot g"
  by (simp add: revealRemainingBoard_def revealFlop_def revealTurn_def revealRiver_def Let_def)

lemma showdown_pays_winner:
  assumes r: "registered w1" and c: "filter notFolded (players (game w1)) \<noteq> []"
    and p: "pot (game w1) = pot (game w)" and l: "ledger w1 = ledger w"
  shows "settledFor w (fst (hd (rankContenders (game w1) (filter notFolded (players (game w1))))))
           (awardPotAndRotate w1
              [pid (fst (hd (rankContenders (game w1) (filter notFolded (players (game w1))))))])"
proof -
  let ?v = "fst (hd (rankContenders (game w1) (filter notFolded (players (game w1)))))"
  have "?v \<in> set (filter notFolded (players (game w1)))"
    by (rule showdown_winner_contends[OF c])
  then have "?v \<in> set (players (game w1))" by simp
  from award_single[OF r this] settledFor_reset[OF p l, of ?v] show ?thesis by simp
qed

lemma settledFor_others:
  "settledFor w v w' \<Longrightarrow> j \<noteq> pid v \<Longrightarrow> ledger w' j = ledger w j"
  by (simp add: settledFor_def addMoneyToUser_def split: option.splits)

text \<open>
  Claim C7. At a showdown with two or more players who have not folded, the whole pot is
  credited to one id only, that of the first entry of the ranked list, and no other ledger
  entry changes; this holds for whatever hands the contenders hold, so also when the best
  hands are exactly equal, and for both showdown paths (handleShowdown, and
  handleAllInShowdown on the revealed board). On \<open>tieTable\<close> both hands evaluate alike and
  seat 0 receives all 40.
\<close>

theorem showdown_single_winner:
  assumes "registered w" and "2 \<le> length (filter notFolded (players (game w)))"
  shows "fst (hd (rankContenders (game w) (filter notFolded (players (game w)))))
           \<in> set (filter notFolded (players (game w))) \<and>
         settledFor w (fst (hd (rankContenders (game w) (filter notFolded (players (game w))))))
           (handleShowdown w) \<and>
         (\<forall>j. j \<noteq> pid (fst (hd (rankContenders (game w) (filter notFolded (players (game w))))))
              \<longrightarrow> ledger (handleShowdown w) j = ledger w j) \<and>
         settledFor w
           (fst (hd (rankContenders (revealRemainingBoard (game w))
              (filter notFolded (players (game w))))))
           (handleAllInShowdown w) \<and>
         (\<forall>j. j \<noteq> pid (fst (hd (rankContenders (revealRemainingBoard (game w))
                         (filter notFolded (players (game w))))))
              \<longrightarrow> ledger (handleAllInShowdown w) j = ledger w j)"
proof -
  let ?cs = "filter notFolded (players (game w))"
  let ?v = "fst (hd (rankContenders (game w) ?cs))"
  let ?w1 = "w\<lparr>game := revealRemainingBoard (game w)\<rparr>"
  let ?v1 = "fst (hd (rankContenders (revealRemainingBoard (game w)) ?cs))"
  from assms(2) have ne: "?cs \<noteq> []" and n1: "length ?cs \<noteq> 1" by auto
  have a: "?v \<in> set ?cs" by (rule showdown_winner_contends[OF ne])
  have "settledFor w ?v (awardPotAndRotate w [pid ?v])"
    using showdown_pays_winner[of w w] assms(1) ne by simp
  then have b: "settledFor w ?v (handleShowdown w)"
    using ne by (simp add: handleShowdown_def Let_def)
  have p1: "pot (game ?w1) = pot (game w)"
    by simp
  have "settledFor w ?v1 (awardPotAndRotate ?w1 [pid ?v1])"
    using showdown_pays_winner[of ?w1 w] assms(1) ne p1 by simp
  then have c: "settledFor w ?v1 (handleAllInShowdown w)"
    using ne n1 by (simp add: handleAllInShowdown_def Let_def)
  show ?thesis
    using a b c settledFor_others[OF b] settledFor_others[OF c] by blast
qed

lemma tie_hands:
  "calculateHandRank [(R2, Diamonds), (R3, Clubs), (RA, Spades), (RK, Spades), (RQ, Spades),
      (RJ, Spades), (R10, Spades)] = \<lparr>rank = 10, kickers = [14]\<rparr>"
  "calculateHandRank [(R2, Hearts), (R3, Diamonds), (RA, Spades), (RK, Spades), (RQ, Spades),
      (RJ, Spades), (R10, Spades)] = \<lparr>rank = 10, kickers = [14]\<rparr>"
  by code_simp+

theorem showdown_single_winner_witness:
  "registered tieTable \<and> 2 \<le> length (filter notFolded (players (game tieTable))) \<and>
   calculateHandRank (hole (players (game tieTable) ! 0) @ board (game tieTable)) =
     calculateHandRank (hole (players (game tieTable) ! 1) @ board (game tieTable)) \<and>
   pid (fst (hd (rankContenders (game tieTable) (filter notFolded (players (game tieTable)))))) = ''a'' \<and>
   settledFor tieTable (fst (hd (rankContenders (game tieTable) (filter notFolded (players (game tieTable))))))
     (handleShowdown tieTable) \<and>
   ledger (handleShowdown tieTable) ''a'' = Some 45 \<and>
   ledger (handleShowdown tieTable) ''b'' = Some 7"
proof -
  have h: "registered tieTable" "2 \<le> length (filter notFolded (players (game tieTable)))"
    by (simp_all add: tieTable_def notFolded_def)
  have e: "calculateHandRank (hole (players (game tieTable) ! 0) @ board (game tieTable)) =
     calculateHandRank (hole (players (game tieTable) ! 1) @ board (game tieTable))"
    by (simp add: tieTable_def tie_hands)
  have w: "pid (fst (hd (rankContenders (game tieTable) (filter notFolded (players (game tieTable)))))) = ''a''"
    by (simp add: tieTable_def notFolded_def rankContenders_def sortBy_def showdownCompare_def
        tie_hands)
  from showdown_single_winner[OF h]
  have s: "settledFor tieTable
      (fst (hd (rankContenders (game tieTable) (filter notFolded (players (game tieTable))))))
      (handleShowdown tieTable)" by blast
  then have l: "ledger (handleShowdown tieTable) = addMoneyToUser ''a'' 40 (ledger tieTable)"
    unfolding settledFor_def w by (simp add: tieTable_def)
  have "ledger (handleShowdown tieTable) ''a'' = Some 45 \<and>
     ledger (handleShowdown tieTable) ''b'' = Some 7"
    unfolding l by (simp add: tieTable_def addMoneyToUser_def)
  with h e w s show ?thesis by simp
qed

section \<open>Raises\<close>

lemma others_to_act:
  assumes d: "distinct (map pid ps)" and c: "2 \<le> length (filter notFolded ps)"
  shows "filter (\<lambda>p. \<not> hasFolded p \<and> pid p \<noteq> i) ps \<noteq> []"
proof
  assume e: "filter (\<lambda>p. \<not> hasFolded p \<and> pid p \<noteq> i) ps = []"
  let ?xs = "map pid (filter notFolded ps)"
  have dx: "distinct ?xs" using d by (rule distinct_map_filter)
  have "set ?xs \<subseteq> {i}"
  proof
    fix x assume "x \<in> set ?xs"
    then obtain p where p: "p \<in> set ps" "\<not> hasFolded p" "x = pid p"
      by (auto simp: notFolded_eq)
    have "p \<notin> set (filter (\<lambda>p. \<not> hasFolded p \<and> pid p \<noteq> i) ps)" using e by simp
    with p show "x \<in> {i}" by auto
  qed
  then have "card (set ?xs) \<le> card {i}" by (intro card_mono) auto
  then have "length ?xs \<le> 1" using distinct_card[OF dx] by simp
  with c show False by simp
qed

lemma moves_on:
  assumes ok: "tableOk w1" and r: "registered w1"
    and ta: "toActIds (game w1) =
             map pid (filter (\<lambda>p. \<not> hasFolded p \<and> pid p \<noteq> i) (players (game w1)))"
  shows "moveToNextPlayer w1 = passTurn w1"
proof -
  from ok r have d: "distinct (map pid (players (game w1)))"
    and c: "2 \<le> length (filter notFolded (players (game w1)))" by (simp_all add: tableOk_def)
  from others_to_act[OF d c, of i] have "toActIds (game w1) \<noteq> []" by (simp add: ta)
  moreover from c have "length (filter notFolded (players (game w1))) \<noteq> 1" by simp
  ultimately show ?thesis by (simp add: moveToNextPlayer_def Let_def)
qed

lemma others_set:
  "set (map pid (filter (\<lambda>p. \<not> hasFolded p \<and> pid p \<noteq> i) ps)) =
   pid ` {p \<in> set ps. \<not> hasFolded p} - {i}"
  by auto

lemma raise_core:
  assumes ok: "tableOk w" and act: "actingPlayer i w = Inr (g, cp)"
    and p': "pid p' = i" "\<not> hasFolded p'" "playerBet p' = X"
    and G: "G = addActionToHistory
                  (setToActAfterRaise
                     (g\<lparr>players := (players g)[currentPlayerIndex g := p'], pot := P,
                        currentBet := X, hasRaiseInRound := True,
                        lastAggressorIndex := Some (currentPlayerIndex g)\<rparr>) i)
                  i ActRaise a t"
  shows "raisedTo i X w (moveToNextPlayer (w\<lparr>game := G, ledger := L\<rparr>))"
proof -
  from actingPlayer_Inr[OF act] have g: "g = game w" and r: "registered w"
    and ia: "isActive (game w)"
    and idx: "currentPlayerIndex (game w) < length (players (game w))"
    and cp: "pid cp = i" "\<not> hasFolded cp" by auto
  let ?w1 = "w\<lparr>game := G, ledger := L\<rparr>"
  have ps: "players G = (players g)[currentPlayerIndex g := p']"
    by (simp add: G setToActAfterRaise_def)
  have ta: "toActIds G = map pid (filter (\<lambda>p. \<not> hasFolded p \<and> pid p \<noteq> i) (players G))"
    by (simp add: G setToActAfterRaise_def)
  have "tableOk ?w1"
    by (rule bet_tableOk[OF ok act ps]) (auto simp: p' cp ta notFolded_eq)
  then have m: "moveToNextPlayer ?w1 = passTurn ?w1"
    using moves_on[of ?w1 i] r ta by simp
  have f: "currentBet G = X" "lastAggressorIndex G = Some (currentPlayerIndex (game w))"
     "hasRaiseInRound G" "isActive G"
    using ia by (simp_all add: G g addActionToHistory_def setToActAfterRaise_def split: option.splits)
  have n: "players G ! currentPlayerIndex (game w) = p'"
    using idx by (simp add: ps g)
  show ?thesis
    unfolding m raisedTo_def
    using f n p' ta others_set[of i "players G"] by (simp add: passTurn_def)
qed

lemma raiseBy_raisedTo:
  assumes ok: "tableOk w" and act: "actingPlayer i w = Inr (g, cp)"
    and s: "fst (raiseBy amt i g cp w) = Success"
  shows "raisedTo i (currentBet (game w) + amt) w (snd (raiseBy amt i g cp w))"
proof -
  from actingPlayer_Inr[OF act] have g: "g = game w" and cp: "pid cp = i" "\<not> hasFolded cp"
    by auto
  from s have c: "\<not> currentBet g + amt - playerBet cp \<le> 0"
    "\<not> userAmountOf (ledger w) i < currentBet g + amt - playerBet cp"
    by (auto simp: raiseBy_def Let_def split: if_splits)
  show ?thesis
    using c raise_core[OF ok act, of "cp\<lparr>playerBet := currentBet g + amt\<rparr>" "currentBet g + amt"] cp
    by (simp add: raiseBy_def Let_def g)
qed

lemma makeRaise_raisedTo:
  assumes ok: "tableOk w" and s: "fst (makeRaise i t w) = Success"
  shows "raisedTo i t w (snd (makeRaise i t w))"
proof (cases "actingPlayer i w")
  case (Inl r)
  with s show ?thesis
    by (auto simp: makeRaise_def actingPlayer_def getActiveGame_def Let_def split: if_splits)
next
  case (Inr gc)
  obtain g cp where gc: "gc = (g, cp)" by (cases gc)
  note act = Inr[unfolded gc]
  from actingPlayer_Inr[OF act] have g: "g = game w" and cp: "pid cp = i" "\<not> hasFolded cp"
    by auto
  from s have c: "\<not> (t - playerBet cp \<le> 0 \<or> chips cp < t - playerBet cp)"
    "\<not> t \<le> currentBet g" "\<not> userAmountOf (ledger w) i < t - playerBet cp"
    by (auto simp: makeRaise_def act Let_def split: if_splits)
  let ?p1 = "cp\<lparr>playerBet := t\<rparr>"
  let ?p2 = "if chips ?p1 = 0 then ?p1\<lparr>isAllIn := True\<rparr> else ?p1"
  have p2: "pid ?p2 = i" "\<not> hasFolded ?p2" "playerBet ?p2 = t" using cp by simp_all
  show ?thesis
    using c raise_core[OF ok act p2]
    by (simp add: makeRaise_def act Let_def)
qed

text \<open>
  Claim C5. In a reachable state, after a successful makeRaise, makeRaiseByBetAmount,
  makeRaiseByMultiplier or makeRaiseByPot by the player with id \<open>i\<close> to the new total \<open>X\<close> (the
  requested total, or the table bet plus the stake, plus the stake times the multiplier,
  plus the larger of stake and pot), the ids still to act are exactly the ids of the players
  who have not folded other than \<open>i\<close>, whatever they were before; the table bet is \<open>X\<close> and
  the raiser's seat is recorded as last aggressor.
\<close>

theorem raise_resets_obligations:
  assumes "reachable w"
  shows "(fst (makeRaise i t w) = Success \<longrightarrow> raisedTo i t w (snd (makeRaise i t w))) \<and>
         (fst (makeRaiseByBetAmount i w) = Success \<longrightarrow>
            raisedTo i (currentBet (game w) + betAmount (game w)) w (snd (makeRaiseByBetAmount i w))) \<and>
         (fst (makeRaiseByMultiplier i m w) = Success \<longrightarrow>
            raisedTo i (currentBet (game w) + max 0 (betAmount (game w) * m)) w
              (snd (makeRaiseByMultiplier i m w))) \<and>
         (fst (makeRaiseByPot i w) = Success \<longrightarrow>
            raisedTo i (currentBet (game w) + max (betAmount (game w)) (pot (game w))) w
              (snd (makeRaiseByPot i w)))"
proof -
  note ok = reachable_tableOk[OF assms]
  have rb: "\<And>amt f. (\<And>g cp. actingPlayer i w = Inr (g, cp) \<Longrightarrow> f = raiseBy (amt g) i g cp w) \<Longrightarrow>
      (\<And>r. actingPlayer i w = Inl r \<Longrightarrow> f = (r, w)) \<Longrightarrow> fst f = Success \<Longrightarrow>
      raisedTo i (currentBet (game w) + amt (game w)) w (snd f)"
  proof -
    fix amt f
    assume a: "\<And>g cp. actingPlayer i w = Inr (g, cp) \<Longrightarrow> f = raiseBy (amt g) i g cp w"
      and b: "\<And>r. actingPlayer i w = Inl r \<Longrightarrow> f = (r, w)" and s: "fst f = Success"
    show "raisedTo i (currentBet (game w) + amt (game w)) w (snd f)"
    proof (cases "actingPlayer i w")
      case (Inl r)
      with b s have "r = Success" by simp
      with Inl show ?thesis
        by (auto simp: actingPlayer_def getActiveGame_def Let_def split: if_splits)
    next
      case (Inr gc)
      obtain g cp where gc: "gc = (g, cp)" by (cases gc)
      note act = Inr[unfolded gc]
      from actingPlayer_Inr[OF act] have g: "g = game w" by simp
      from a[OF act] s raiseBy_raisedTo[OF ok act, of "amt g"] show ?thesis by (simp add: g)
    qed
  qed
  have 1: "fst (makeRaise i t w) = Success \<longrightarrow> raisedTo i t w (snd (makeRaise i t w))"
    using makeRaise_raisedTo[OF ok] by blast
  have 2: "fst (makeRaiseByBetAmount i w) = Success \<longrightarrow>
            raisedTo i (currentBet (game w) + betAmount (game w)) w (snd (makeRaiseByBetAmount i w))"
    using rb[of "makeRaiseByBetAmount i w" betAmount] by (simp add: makeRaiseByBetAmount_def)
  have 3: "fst (makeRaiseByMultiplier i m w) = Success \<longrightarrow>
            raisedTo i (currentBet (game w) + max 0 (betAmount (game w) * m)) w
              (snd (makeRaiseByMultiplier i m w))"
    using rb[of "makeRaiseByMultiplier i m w" "\<lambda>g. max 0 (betAmount g * m)"]
    by (simp add: makeRaiseByMultiplier_def)
  have 4: "fst (makeRaiseByPot i w) = Success \<longrightarrow>
            raisedTo i (currentBet (game w) + max (betAmount (game w)) (pot (game w))) w
              (snd (makeRaiseByPot i w))"
    using rb[of "makeRaiseByPot i w" "\<lambda>g. max (betAmount g) (pot g)"]
    by (simp add: makeRaiseByPot_def)
  from 1 2 3 4 show ?thesis by blast
qed

lemma demoTable3_reachable: "reachable demoTable3"
proof -
  have "startGame [''a'', ''b'', ''c''] 10 demoDeck lobby3 \<noteq> None"
    by (simp add: startGame_def deductPlayersFunds_def)
  then obtain w where w: "startGame [''a'', ''b'', ''c''] 10 demoDeck lobby3 = Some w" by blast
  have "reachable w" by (rule reach_start[OF _ _ w]) simp_all
  then have "reachable (dealCardsAndStartGame w)" by (rule reach_deal)
  then show ?thesis by (simp add: demoTable3_def w)
qed

theorem raise_resets_obligations_witness:
  "reachable (snd (makeCheck ''b'' demoTable3)) \<and>
   toActIds (game (snd (makeCheck ''b'' demoTable3))) = [''a'', ''c''] \<and>
   fst (makeRaiseByBetAmount ''c'' (snd (makeCheck ''b'' demoTable3))) = Success \<and>
   raisedTo ''c'' 10 (snd (makeCheck ''b'' demoTable3))
     (snd (makeRaiseByBetAmount ''c'' (snd (makeCheck ''b'' demoTable3)))) \<and>
   toActIds (game (snd (makeRaiseByBetAmount ''c'' (snd (makeCheck ''b'' demoTable3))))) = [''a'', ''b'']"
proof -
  let ?w = "snd (makeCheck ''b'' demoTable3)"
  have r: "reachable ?w" by (rule reach_check[OF demoTable3_reachable])
  have e: "toActIds (game ?w) = [''a'', ''c''] \<and>
     fst (makeRaiseByBetAmount ''c'' ?w) = Success \<and>
     currentBet (game ?w) + betAmount (game ?w) = 10 \<and>
     toActIds (game (snd (makeRaiseByBetAmount ''c'' ?w))) = [''a'', ''b'']"
    by code_simp
  from raise_resets_obligations[OF r, of "''c''" 0 0] e
  have "raisedTo ''c'' 10 ?w (snd (makeRaiseByBetAmount ''c'' ?w))" by simp
  with r e show ?thesis by simp
qed

section \<open>All-in\<close>

lemma allin_core:
  assumes ok: "tableOk w" and act: "actingPlayer i w = Inr (g, cp)"
    and a: "0 < a" and la: "ledger w i = Some a"
    and G: "G = (if currentBet g < playerBet cp + a
                 then setToActAfterRaise
                        (g\<lparr>players := (players g)[currentPlayerIndex g :=
                                cp\<lparr>chips := 0, playerBet := playerBet cp + a, isAllIn := True\<rparr>],
                           pot := pot g + a, currentBet := playerBet cp + a, hasRaiseInRound := True,
                           lastAggressorIndex := Some (currentPlayerIndex g)\<rparr>) i
                 else (setToActAfterRaise
                        (g\<lparr>players := (players g)[currentPlayerIndex g :=
                                cp\<lparr>chips := 0, playerBet := playerBet cp + a, isAllIn := True\<rparr>],
                           pot := pot g + a\<rparr>) i)\<lparr>lastAggressorIndex := Some (currentPlayerIndex g)\<rparr>)"
    and w1: "w1 = moveToNextPlayer (w\<lparr>game := G, ledger := (ledger w)(i \<mapsto> 0)\<rparr>)"
  shows "wentAllIn i a w (w1\<lparr>game := addActionToHistory (game w1) i ActAllIn x y\<rparr>)"
proof -
  from actingPlayer_Inr[OF act] have g: "g = game w" and r: "registered w"
    and ia: "isActive (game w)"
    and idx: "currentPlayerIndex (game w) < length (players (game w))"
    and cpe: "cp = players (game w) ! currentPlayerIndex (game w)"
    and cp: "pid cp = i" "\<not> hasFolded cp" by auto
  let ?p' = "cp\<lparr>chips := 0, playerBet := playerBet cp + a, isAllIn := True\<rparr>"
  let ?w0 = "w\<lparr>game := G, ledger := (ledger w)(i \<mapsto> 0)\<rparr>"
  have ps: "players G = (players g)[currentPlayerIndex g := ?p']"
    by (simp add: G setToActAfterRaise_def)
  have ta: "toActIds G = map pid (filter (\<lambda>p. \<not> hasFolded p \<and> pid p \<noteq> i) (players G))"
    by (simp add: G setToActAfterRaise_def)
  have "tableOk ?w0"
    by (rule bet_tableOk[OF ok act ps]) (auto simp: cp ta notFolded_eq)
  then have m: "w1 = passTurn ?w0"
    using moves_on[of ?w0 i] r ta by (simp add: w1)
  have f: "currentBet G = max (currentBet (game w)) (playerBet cp + a)"
    "lastAggressorIndex G = Some (currentPlayerIndex (game w))" "isActive G"
    "pot G = pot (game w) + a"
    using ia by (simp_all add: G g setToActAfterRaise_def)
  have n: "players G ! currentPlayerIndex (game w) = ?p'"
    using idx by (simp add: ps g)
  show ?thesis
    unfolding m wentAllIn_def
    using f n cp ta others_set[of i "players G"] cpe
    by (simp add: passTurn_def addActionToHistory_def split: option.splits)
qed

lemma makeAllIn_success:
  assumes ok: "tableOk w" and r: "registered w" "isActive (game w)"
    and k: "currentPlayerIndex (game w) < length (players (game w))"
    and i: "pid (players (game w) ! currentPlayerIndex (game w)) = i"
    and nf: "\<not> hasFolded (players (game w) ! currentPlayerIndex (game w))"
    and pos: "0 < userAmountOf (ledger w) i"
    and enough: "currentBet (game w) - playerBet (players (game w) ! currentPlayerIndex (game w))
                 \<le> userAmountOf (ledger w) i"
  shows "fst (makeAllIn i w) = Success \<and>
         wentAllIn i (userAmountOf (ledger w) i) w (snd (makeAllIn i w))"
proof -
  let ?cp = "players (game w) ! currentPlayerIndex (game w)"
  let ?a = "userAmountOf (ledger w) i"
  have act: "actingPlayer i w = Inr (game w, ?cp)"
    using r k i nf by (simp add: actingPlayer_def getActiveGame_def Let_def)
  from pos have la: "ledger w i = Some ?a"
    by (auto simp: userAmountOf_def split: option.splits)
  have c: "\<not> ?a \<le> 0" "\<not> (0 < max 0 (currentBet (game w) - playerBet ?cp) \<and>
       ?a < max 0 (currentBet (game w) - playerBet ?cp))"
    using pos enough by auto
  show ?thesis
    using allin_core[OF ok act pos la refl refl] c la
    by (simp add: makeAllIn_def act Let_def)
qed

lemma makeAllIn_short:
  assumes r: "registered w" "isActive (game w)"
    and k: "currentPlayerIndex (game w) < length (players (game w))"
    and i: "pid (players (game w) ! currentPlayerIndex (game w)) = i"
    and nf: "\<not> hasFolded (players (game w) ! currentPlayerIndex (game w))"
    and pos: "0 < userAmountOf (ledger w) i"
    and short: "userAmountOf (ledger w) i
                < currentBet (game w) - playerBet (players (game w) ! currentPlayerIndex (game w))"
  shows "makeAllIn i w = (Failure InsufficientFunds, w)"
proof -
  let ?cp = "players (game w) ! currentPlayerIndex (game w)"
  have act: "actingPlayer i w = Inr (game w, ?cp)"
    using r k i nf by (simp add: actingPlayer_def getActiveGame_def Let_def)
  show ?thesis using pos short by (simp add: makeAllIn_def act Let_def)
qed

text \<open>
  Claim C1 says that every all-in with a positive balance succeeds, a short one included.
  The code refuses a short all-in: when the balance is below the amount needed to call,
  makeAllIn returns the insufficient-funds failure and changes nothing (as after b raised to
  10 while a holds 5, evaluated after the theorem).
  What holds: in a reachable active game where the player to act has id \<open>i\<close>, has not folded
  and holds a positive balance that covers the amount to call, makeAllIn succeeds and puts
  the whole balance into the pot, marks the player all-in, and resets the ids still to act
  to the other players who have not folded, both when the new bet exceeds the table bet
  and when it only matches it; with a balance below the amount to call it fails and leaves
  the state unchanged.
\<close>

theorem all_in_commits_balance:
  assumes "reachable w" and "registered w" and "isActive (game w)"
    and "currentPlayerIndex (game w) < length (players (game w))"
    and "pid (players (game w) ! currentPlayerIndex (game w)) = i"
    and "\<not> hasFolded (players (game w) ! currentPlayerIndex (game w))"
    and "0 < userAmountOf (ledger w) i"
  shows "(currentBet (game w) - playerBet (players (game w) ! currentPlayerIndex (game w))
            \<le> userAmountOf (ledger w) i
          \<longrightarrow> fst (makeAllIn i w) = Success \<and>
              wentAllIn i (userAmountOf (ledger w) i) w (snd (makeAllIn i w))) \<and>
         (userAmountOf (ledger w) i
            < currentBet (game w) - playerBet (players (game w) ! currentPlayerIndex (game w))
          \<longrightarrow> makeAllIn i w = (Failure InsufficientFunds, w))"
  using makeAllIn_success[OF reachable_tableOk[OF assms(1)] assms(2-7)]
    makeAllIn_short[OF assms(2-7)] by blast

theorem short_all_in_is_rejected:
  "reachable (snd (makeRaiseByBetAmount ''b'' demoTable)) \<and>
   registered (snd (makeRaiseByBetAmount ''b'' demoTable)) \<and>
   isActive (game (snd (makeRaiseByBetAmount ''b'' demoTable))) \<and>
   currentPlayerIndex (game (snd (makeRaiseByBetAmount ''b'' demoTable))) = 0 \<and>
   pid (players (game (snd (makeRaiseByBetAmount ''b'' demoTable))) ! 0) = ''a'' \<and>
   \<not> hasFolded (players (game (snd (makeRaiseByBetAmount ''b'' demoTable))) ! 0) \<and>
   userAmountOf (ledger (snd (makeRaiseByBetAmount ''b'' demoTable))) ''a'' = 5 \<and>
   currentBet (game (snd (makeRaiseByBetAmount ''b'' demoTable)))
     - playerBet (players (game (snd (makeRaiseByBetAmount ''b'' demoTable))) ! 0) = 10 \<and>
   fst (makeAllIn ''a'' (snd (makeRaiseByBetAmount ''b'' demoTable))) = Failure InsufficientFunds \<and>
   game (snd (makeAllIn ''a'' (snd (makeRaiseByBetAmount ''b'' demoTable))))
     = game (snd (makeRaiseByBetAmount ''b'' demoTable)) \<and>
   \<not> isAllIn (players (game (snd (makeAllIn ''a'' (snd (makeRaiseByBetAmount ''b'' demoTable))))) ! 0) \<and>
   ledger (snd (makeAllIn ''a'' (snd (makeRaiseByBetAmount ''b'' demoTable)))) ''a'' = Some 5"
proof -
  let ?w = "snd (makeRaiseByBetAmount ''b'' demoTable)"
  have r: "reachable ?w" by (rule reach_raise_bet[OF demoTable_reachable])
  have e: "registered ?w \<and> isActive (game ?w) \<and> currentPlayerIndex (game ?w) = 0 \<and>
     pid (players (game ?w) ! 0) = ''a'' \<and> \<not> hasFolded (players (game ?w) ! 0) \<and>
     userAmountOf (ledger ?w) ''a'' = 5 \<and>
     currentBet (game ?w) - playerBet (players (game ?w) ! 0) = 10 \<and>
     fst (makeAllIn ''a'' ?w) = Failure InsufficientFunds \<and>
     game (snd (makeAllIn ''a'' ?w)) = game ?w \<and>
     \<not> isAllIn (players (game (snd (makeAllIn ''a'' ?w))) ! 0) \<and>
     ledger (snd (makeAllIn ''a'' ?w)) ''a'' = Some 5"
    by code_simp
  show ?thesis by (rule conjI[OF r e])
qed

theorem all_in_commits_balance_witness:
  "reachable (snd (makeRaiseByBetAmount ''b'' demoTable3)) \<and>
   pid (players (game (snd (makeRaiseByBetAmount ''b'' demoTable3))) !
        currentPlayerIndex (game (snd (makeRaiseByBetAmount ''b'' demoTable3)))) = ''c'' \<and>
   userAmountOf (ledger (snd (makeRaiseByBetAmount ''b'' demoTable3))) ''c'' = 10 \<and>
   currentBet (game (snd (makeRaiseByBetAmount ''b'' demoTable3))) = 10 \<and>
   fst (makeAllIn ''c'' (snd (makeRaiseByBetAmount ''b'' demoTable3))) = Success \<and>
   wentAllIn ''c'' 10 (snd (makeRaiseByBetAmount ''b'' demoTable3))
     (snd (makeAllIn ''c'' (snd (makeRaiseByBetAmount ''b'' demoTable3)))) \<and>
   toActIds (game (snd (makeAllIn ''c'' (snd (makeRaiseByBetAmount ''b'' demoTable3))))) = [''a'', ''b'']"
proof -
  let ?w = "snd (makeRaiseByBetAmount ''b'' demoTable3)"
  let ?k = "currentPlayerIndex (game ?w)"
  have r: "reachable ?w" by (rule reach_raise_bet[OF demoTable3_reachable])
  have h: "registered ?w" "isActive (game ?w)" "?k < length (players (game ?w))"
    "pid (players (game ?w) ! ?k) = ''c''" "\<not> hasFolded (players (game ?w) ! ?k)"
    "0 < userAmountOf (ledger ?w) ''c''"
    by code_simp+
  have e: "userAmountOf (ledger ?w) ''c'' = 10 \<and> currentBet (game ?w) = 10 \<and>
     currentBet (game ?w) - playerBet (players (game ?w) ! ?k) \<le> userAmountOf (ledger ?w) ''c'' \<and>
     toActIds (game (snd (makeAllIn ''c'' ?w))) = [''a'', ''b'']"
    by code_simp
  from all_in_commits_balance[OF r h] e
  have "fst (makeAllIn ''c'' ?w) = Success \<and> wentAllIn ''c'' 10 ?w (snd (makeAllIn ''c'' ?w))"
    by simp
  with r h e show ?thesis by simp
qed

section \<open>Round closure\<close>

lemma burnCard_fields [simp]:
  "board (burnCard g) = board g" "round (burnCard g) = round g"
  "length (deck (burnCard g)) = length (deck g) - 1"
  "isActive (burnCard g) = isActive g"
  by (simp_all add: burnCard_def popDeck_def split: prod.splits)

lemma dealBoardCard_fields [simp]:
  "round (dealBoardCard g) = round g"
  "length (deck (dealBoardCard g)) = length (deck g) - 1"
  "isActive (dealBoardCard g) = isActive g"
  by (simp_all add: dealBoardCard_def popDeck_def split: prod.splits option.splits)

lemma dealBoardCard_board:
  "deck g \<noteq> [] \<Longrightarrow> length (board (dealBoardCard g)) = Suc (length (board g))"
  by (simp add: dealBoardCard_def popDeck_def)

lemma reveal_completes_board:
  assumes "length (board g) \<in> {0, 3, 4, 5}" and "8 \<le> length (deck g)" and "round g \<noteq> showdown"
  shows "length (board (revealRemainingBoard g)) = 5 \<and> round (revealRemainingBoard g) = river"
proof -
  have d: "\<And>h. 1 \<le> length (deck h) \<Longrightarrow> length (board (dealBoardCard h)) = Suc (length (board h))"
    by (rule dealBoardCard_board) auto
  from assms(1) consider "length (board g) = 0" | "length (board g) = 3"
    | "length (board g) = 4" | "length (board g) = 5" by auto
  then show ?thesis
  proof cases
    case 1
    then show ?thesis using assms(2,3)
      by (auto simp: revealRemainingBoard_def revealFlop_def revealTurn_def revealRiver_def Let_def d)
  next
    case 2
    then show ?thesis using assms(2,3)
      by (auto simp: revealRemainingBoard_def revealFlop_def revealTurn_def revealRiver_def Let_def d)
  next
    case 3
    then show ?thesis using assms(2,3)
      by (auto simp: revealRemainingBoard_def revealFlop_def revealTurn_def revealRiver_def Let_def d)
  next
    case 4
    then show ?thesis using assms(2,3)
      by (auto simp: revealRemainingBoard_def revealFlop_def revealTurn_def revealRiver_def Let_def d)
  qed
qed

lemma advance_street:
  assumes "round (game w) \<in> {preflop, flop, turn}"
  shows "round (game (advanceToNextRound w)) =
           (case round (game w) of preflop \<Rightarrow> flop | flop \<Rightarrow> turn | _ \<Rightarrow> river) \<and>
         isActive (game (advanceToNextRound w)) = isActive (game w) \<and>
         registered (advanceToNextRound w) = registered w \<and>
         toActIds (game (advanceToNextRound w)) = map pid (filter notFolded (players (game w)))"
  using assms
  by (auto simp: advanceToNextRound_def Let_def setToActForNewRound_def firstToAct_def)

lemma rankContenders_round [simp]:
  "rankContenders (g\<lparr>round := r\<rparr>) cs = rankContenders g cs"
  by (simp add: rankContenders_def)

lemma allin_showdown_settles:
  assumes "registered w" and "2 \<le> length (filter notFolded (players (game w)))"
  shows "settledFor w
           (fst (hd (rankContenders (revealRemainingBoard (game w))
              (filter notFolded (players (game w))))))
           (handleAllInShowdown w)"
proof -
  let ?cs = "filter notFolded (players (game w))"
  let ?w1 = "w\<lparr>game := revealRemainingBoard (game w)\<rparr>"
  let ?v1 = "fst (hd (rankContenders (revealRemainingBoard (game w)) ?cs))"
  from assms(2) have ne: "?cs \<noteq> []" and n1: "length ?cs \<noteq> 1" by auto
  have "settledFor w ?v1 (awardPotAndRotate ?w1 [pid ?v1])"
    using showdown_pays_winner[of ?w1 w] assms(1) ne by simp
  then show ?thesis
    using ne n1 by (simp add: handleAllInShowdown_def Let_def)
qed

text \<open>
  Claim C4 says that for every active game the round closes exactly when no id is left to
  act and every player who has not folded has matched the table bet, and that otherwise the
  turn passes. moveToNextPlayer and checkAndContinueGame first test whether exactly one
  player has not folded, and then end the hand for that player whatever the closure test
  says (on \<open>afterFold\<close> an id is still to act, yet the hand is over and the turn has not
  moved). What holds, for an active registered game with at least two players who have not
  folded: when no id is left to act and all bets are matched, then if a player who has not
  folded is all-in the remaining board is revealed (five cards, given a regular board and
  at least eight cards in the deck) and the hand is settled by showdown on that board; else
  on the river the hand is settled by showdown; else on preflop, flop or turn the game
  advances to the next street, stays active and everyone who has not folded is to act
  again. When an id is left to act or a bet is unmatched, nothing changes but the turn,
  which passes to findNextActorIndex. checkAndContinueGame decides the same way.
\<close>

theorem round_closure:
  assumes r: "registered w" and a: "isActive (game w)"
    and c: "2 \<le> length (filter notFolded (players (game w)))"
  shows
    "(toActIds (game w) = [] \<and> allMatched (game w) \<longrightarrow>
        (filter isAllIn (filter notFolded (players (game w))) \<noteq> [] \<longrightarrow>
           moveToNextPlayer w = handleAllInShowdown w \<and>
           settledFor w
             (fst (hd (rankContenders (revealRemainingBoard (game w))
                (filter notFolded (players (game w))))))
             (moveToNextPlayer w) \<and>
           (length (board (game w)) \<in> {0, 3, 4, 5} \<and> 8 \<le> length (deck (game w)) \<and>
            round (game w) \<noteq> showdown
            \<longrightarrow> length (board (revealRemainingBoard (game w))) = 5)) \<and>
        (filter isAllIn (filter notFolded (players (game w))) = [] \<and> round (game w) = river \<longrightarrow>
           settledFor w
             (fst (hd (rankContenders (game w) (filter notFolded (players (game w))))))
             (moveToNextPlayer w)) \<and>
        (filter isAllIn (filter notFolded (players (game w))) = [] \<and>
         round (game w) \<in> {preflop, flop, turn} \<longrightarrow>
           moveToNextPlayer w = advanceToNextRound w \<and>
           round (game (moveToNextPlayer w)) =
             (case round (game w) of preflop \<Rightarrow> flop | flop \<Rightarrow> turn | _ \<Rightarrow> river) \<and>
           isActive (game (moveToNextPlayer w)) \<and> registered (moveToNextPlayer w) \<and>
           toActIds (game (moveToNextPlayer w)) = map pid (filter notFolded (players (game w))))) \<and>
     (\<not> (toActIds (game w) = [] \<and> allMatched (game w)) \<longrightarrow>
        moveToNextPlayer w =
          w\<lparr>game := (game w)\<lparr>currentPlayerIndex :=
                findNextActorIndex (game w) (currentPlayerIndex (game w))\<rparr>\<rparr>) \<and>
     (currentPlayerIndex (game w) < length (players (game w)) \<longrightarrow>
        checkAndContinueGame w = moveToNextPlayer w)"
proof -
  let ?cs = "filter notFolded (players (game w))"
  from c have ne: "?cs \<noteq> []" and n1: "length ?cs \<noteq> 1" by auto
  have open_round: "\<not> (toActIds (game w) = [] \<and> allMatched (game w)) \<Longrightarrow>
      moveToNextPlayer w =
        w\<lparr>game := (game w)\<lparr>currentPlayerIndex :=
              findNextActorIndex (game w) (currentPlayerIndex (game w))\<rparr>\<rparr>"
    using n1 by (auto simp: moveToNextPlayer_def Let_def passTurn_def)
  have closed: "toActIds (game w) = [] \<and> allMatched (game w) \<Longrightarrow> moveToNextPlayer w = closeRound w"
    using n1 by (simp add: moveToNextPlayer_def Let_def)
  have allin: "settledFor w (fst (hd (rankContenders (revealRemainingBoard (game w)) ?cs)))
      (handleAllInShowdown w)"
    by (rule allin_showdown_settles[OF r c])
  have riv: "settledFor w (fst (hd (rankContenders (game w) ?cs)))
      (handleShowdown (w\<lparr>game := (game w)\<lparr>round := showdown\<rparr>\<rparr>))"
  proof -
    let ?w1 = "w\<lparr>game := (game w)\<lparr>round := showdown\<rparr>\<rparr>"
    have "settledFor w (fst (hd (rankContenders (game ?w1) (filter notFolded (players (game ?w1))))))
           (awardPotAndRotate ?w1
              [pid (fst (hd (rankContenders (game ?w1) (filter notFolded (players (game ?w1))))))])"
      by (rule showdown_pays_winner) (use r ne in simp_all)
    then show ?thesis using ne by (simp add: handleShowdown_def Let_def)
  qed
  have same: "currentPlayerIndex (game w) < length (players (game w)) \<Longrightarrow>
      checkAndContinueGame w = moveToNextPlayer w"
    using r by (simp add: checkAndContinueGame_def moveToNextPlayer_def Let_def)
  show ?thesis
    using open_round closed allin riv same advance_street[of w] a r
      reveal_completes_board[of "game w"]
    by (auto simp: closeRound_def)
qed

theorem fold_out_precedes_closure_test:
  "makeFold ''b'' demoTable = (Success, moveToNextPlayer afterFold) \<and>
   registered afterFold \<and> isActive (game afterFold) \<and> round (game afterFold) = preflop \<and>
   toActIds (game afterFold) = [''a''] \<and>
   \<not> (toActIds (game afterFold) = [] \<and> allMatched (game afterFold)) \<and>
   length (filter notFolded (players (game afterFold))) = 1 \<and>
   \<not> isActive (game (moveToNextPlayer afterFold)) \<and>
   round (game (moveToNextPlayer afterFold)) = waiting \<and>
   currentPlayerIndex (game (moveToNextPlayer afterFold)) = currentPlayerIndex (game afterFold) \<and>
   pot (game afterFold) = 20 \<and>
   ledger afterFold ''a'' = Some 5 \<and>
   ledger (moveToNextPlayer afterFold) ''a'' = Some 25"
proof -
  have act: "actingPlayer ''b'' demoTable = Inr (game demoTable, players (game demoTable) ! 1)"
    by code_simp
  have k: "currentPlayerIndex (game demoTable) = 1" by code_simp
  have m: "makeFold ''b'' demoTable = (Success, moveToNextPlayer afterFold)"
    by (simp add: makeFold_def act k afterFold_def Let_def)
  have e: "registered afterFold \<and> isActive (game afterFold) \<and> round (game afterFold) = preflop \<and>
   toActIds (game afterFold) = [''a''] \<and>
   \<not> (toActIds (game afterFold) = [] \<and> allMatched (game afterFold)) \<and>
   length (filter notFolded (players (game afterFold))) = 1 \<and>
   \<not> isActive (game (moveToNextPlayer afterFold)) \<and>
   round (game (moveToNextPlayer afterFold)) = waiting \<and>
   currentPlayerIndex (game (moveToNextPlayer afterFold)) = currentPlayerIndex (game afterFold) \<and>
   pot (game afterFold) = 20 \<and>
   ledger afterFold ''a'' = Some 5 \<and>
   ledger (moveToNextPlayer afterFold) ''a'' = Some 25"
    by code_simp
  show ?thesis by (rule conjI[OF m e])
qed

theorem round_closure_witness:
  "registered bothChecked \<and> isActive (game bothChecked) \<and>
   2 \<le> length (filter notFolded (players (game bothChecked))) \<and>
   toActIds (game bothChecked) = [] \<and> allMatched (game bothChecked) \<and>
   filter isAllIn (filter notFolded (players (game bothChecked))) = [] \<and>
   round (game bothChecked) = preflop \<and>
   moveToNextPlayer bothChecked = advanceToNextRound bothChecked \<and>
   round (game (moveToNextPlayer bothChecked)) = flop \<and>
   isActive (game (moveToNextPlayer bothChecked)) \<and>
   length (board (game (moveToNextPlayer bothChecked))) = 3 \<and>
   toActIds (game (moveToNextPlayer bothChecked)) = [''a'', ''b'']"
proof -
  have h: "registered bothChecked" "isActive (game bothChecked)"
    "2 \<le> length (filter notFolded (players (game bothChecked)))"
    by code_simp+
  have e: "toActIds (game bothChecked) = [] \<and> allMatched (game bothChecked) \<and>
     filter isAllIn (filter notFolded (players (game bothChecked))) = [] \<and>
     round (game bothChecked) = preflop \<and>
     length (board (game (moveToNextPlayer bothChecked))) = 3 \<and>
     toActIds (game (moveToNextPlayer bothChecked)) = [''a'', ''b'']"
    by code_simp
  from e have c: "toActIds (game bothChecked) = [] \<and> allMatched (game bothChecked)"
    and n: "filter isAllIn (filter notFolded (players (game bothChecked))) = [] \<and>
            round (game bothChecked) \<in> {preflop, flop, turn}"
    and rp: "round (game bothChecked) = preflop" by simp_all
  from round_closure[OF h] c n
  have x: "moveToNextPlayer bothChecked = advanceToNextRound bothChecked \<and>
     round (game (moveToNextPlayer bothChecked)) =
       (case round (game bothChecked) of preflop \<Rightarrow> flop | flop \<Rightarrow> turn | _ \<Rightarrow> river) \<and>
     isActive (game (moveToNextPlayer bothChecked))"
    by blast
  then have "round (game (moveToNextPlayer bothChecked)) = (case preflop of preflop \<Rightarrow> flop | flop \<Rightarrow> turn | _ \<Rightarrow> river)"
    unfolding rp by blast
  then have y: "round (game (moveToNextPlayer bothChecked)) = flop" by simp
  show ?thesis using h e x y by (elim conjE) (intro conjI; assumption)
qed

end
